theory Spec2Isabelle
  imports Complex_Main
begin

section \<open>JavaScript values used by the renderer\<close>

text \<open>
  A JavaScript number that is stored, passed or tested is kept as a real: a finite double,
  the two zeros taken as one. An optional argument or an ambient global that may be
  missing is a \<open>number option\<close>, \<open>None\<close> standing for \<open>undefined\<close>.
\<close>

type_synonym number = real

datatype js_error = TypeError

text \<open>
  The result of arithmetic is a double again: the exact result rounded to the nearest
  binary64 value, ties to even, with gradual underflow and with overflow to an infinity.
  \<open>e\<close> is the binary exponent of the exact result and \<open>q\<close> the exponent of its last
  place (53 significant bits, never below the subnormal spacing \<open>2 powi -1074\<close>).
\<close>

datatype jsnum = Num number | PosInf | NegInf | NaN

definition round_half_even :: "real \<Rightarrow> int" where
  "round_half_even x =
     (let f = \<lfloor>x\<rfloor>; d = x - of_int f
      in if d < 1 / 2 then f else if 1 / 2 < d then f + 1 else if even f then f else f + 1)"

definition overflow_threshold :: real where
  "overflow_threshold = 2 ^ 1024"

definition fl64 :: "real \<Rightarrow> jsnum" where
  "fl64 x =
     (if x = 0 then Num 0
      else (let e = \<lfloor>log 2 \<bar>x\<bar>\<rfloor>;
                q = max (e - 52) (- 1074);
                y = of_int (round_half_even (x / 2 powi q)) * 2 powi q
            in if overflow_threshold \<le> y then PosInf
               else if y \<le> - overflow_threshold then NegInf
               else Num y))"

text \<open>\<open>x - y\<close> on finite numbers, \<open>x * y\<close> and \<open>Math.abs\<close> on any numbers.\<close>

definition js_minus :: "number \<Rightarrow> number \<Rightarrow> jsnum" where
  "js_minus x y = fl64 (x - y)"

fun js_times :: "jsnum \<Rightarrow> jsnum \<Rightarrow> jsnum" where
  "js_times (Num x) (Num y) = fl64 (x * y)"
| "js_times NaN b = NaN"
| "js_times a NaN = NaN"
| "js_times PosInf (Num y) = (if y = 0 then NaN else if 0 < y then PosInf else NegInf)"
| "js_times NegInf (Num y) = (if y = 0 then NaN else if 0 < y then NegInf else PosInf)"
| "js_times (Num x) PosInf = (if x = 0 then NaN else if 0 < x then PosInf else NegInf)"
| "js_times (Num x) NegInf = (if x = 0 then NaN else if 0 < x then NegInf else PosInf)"
| "js_times PosInf PosInf = PosInf"
| "js_times PosInf NegInf = NegInf"
| "js_times NegInf PosInf = NegInf"
| "js_times NegInf NegInf = PosInf"

fun Math_abs :: "jsnum \<Rightarrow> jsnum" where
  "Math_abs (Num x) = Num \<bar>x\<bar>"
| "Math_abs PosInf = PosInf"
| "Math_abs NegInf = PosInf"
| "Math_abs NaN = NaN"

text \<open>\<open>x || d\<close> on numbers: \<open>undefined\<close> and \<open>0\<close> are falsy. \<open>js_or_num\<close> is the same
  operator where the right-hand side is the result of arithmetic.\<close>

definition falsy :: "number option \<Rightarrow> bool" where
  "falsy x = (case x of None \<Rightarrow> True | Some v \<Rightarrow> v = 0)"

definition js_or :: "number option \<Rightarrow> number \<Rightarrow> number" where
  "js_or x d = (case x of None \<Rightarrow> d | Some v \<Rightarrow> if v = 0 then d else v)"

definition js_or_num :: "number option \<Rightarrow> jsnum \<Rightarrow> jsnum" where
  "js_or_num x d = (case x of None \<Rightarrow> d | Some v \<Rightarrow> if v = 0 then d else Num v)"

text \<open>\<open>Array.prototype.indexOf\<close>: the first index holding the value, \<open>-1\<close> when there is none.\<close>

fun indexOf_from :: "'a list \<Rightarrow> 'a \<Rightarrow> int \<Rightarrow> int" where
  "indexOf_from [] x i = - 1"
| "indexOf_from (y # ys) x i = (if y = x then i else indexOf_from ys x (i + 1))"

definition indexOf :: "'a list \<Rightarrow> 'a \<Rightarrow> int" where
  "indexOf xs x = indexOf_from xs x 0"

text \<open>\<open>Array.prototype.push\<close> and \<open>Array.prototype.splice(start, deleteCount)\<close>
  (a negative start counts from the end).\<close>

definition push :: "'a list \<Rightarrow> 'a \<Rightarrow> 'a list" where
  "push xs x = xs @ [x]"

definition splice_array :: "'a list \<Rightarrow> int \<Rightarrow> nat \<Rightarrow> 'a list" where
  "splice_array xs start deleteCount =
     (let len = int (length xs);
          s = nat (if start < 0 then max (len + start) 0 else min start len)
      in take s xs @ drop (s + deleteCount) xs)"

section \<open>The collaborators: twgl, the WebGL context, the window\<close>

text \<open>A matrix is kept as the \<open>twgl.m4\<close> call that builds it.\<close>

datatype mat4 =
    M4_identity
  | M4_ortho number number number number number number

text \<open>
  The canvas element of the host. Its \<open>width\<close> and \<open>height\<close> are the dimensions of its
  backing store, attributes of type unsigned long: a number assigned to one of them is
  converted as the Web IDL prescribes (not a finite number gives 0, the fraction is
  dropped, the rest is taken modulo \<open>2 ^ 32\<close>) and is stored when it is at most
  2147483647; beyond that the attribute falls back to its default, 300 for the width and
  150 for the height.
\<close>

record canvas =
  width :: nat
  height :: nat
  clientWidth :: number
  clientHeight :: number

definition ToUint32 :: "jsnum \<Rightarrow> nat" where
  "ToUint32 v =
     (case v of
        Num x \<Rightarrow> nat ((if 0 \<le> x then \<lfloor>x\<rfloor> else \<lceil>x\<rceil>) mod 4294967296)
      | _ \<Rightarrow> 0)"

definition unsigned_long_attribute :: "nat \<Rightarrow> jsnum \<Rightarrow> nat" where
  "unsigned_long_attribute fallback v =
     (let n = ToUint32 v in if n \<le> 2147483647 then n else fallback)"

record window =
  devicePixelRatio :: "number option"
  fudge :: "number option"

type_synonym drawable_id = nat

text \<open>A shader is the program-info object of one shader variant, compared by identity.\<close>

type_synonym shader = nat

record attrib_array =
  numComponents :: nat
  data :: "number list"

record bufferInfo =
  a_position :: attrib_array
  a_texCoord :: attrib_array

datatype blend_factor = ZERO | ONE | SRC_ALPHA | ONE_MINUS_SRC_ALPHA

datatype capability = BLEND

datatype 'u uniform_values =
    DrawableUniforms drawable_id 'u
  | U_fudge number

text \<open>
  The calls that the renderer issues on the WebGL context (directly or through twgl), in
  the order it issues them. The uniform set a drawable hands out is tagged with the id of
  the drawable that owns it. \<open>BlendFunc\<close> is the non-separate blend configuration of the
  API; the renderer has no call site for it.
\<close>

datatype 'u gl_call =
    Viewport number number number number
  | ClearColor "number \<times> number \<times> number \<times> number"
  | Clear_COLOR_BUFFER_BIT
  | Enable capability
  | BlendFunc blend_factor blend_factor
  | BlendFuncSeparate blend_factor blend_factor blend_factor blend_factor
  | UseProgram shader
  | SetBuffersAndAttributes shader bufferInfo
  | SetUniforms "shader option" "'u uniform_values"
  | DrawBufferInfo_TRIANGLES bufferInfo

section \<open>Drawable and its registry\<close>

text \<open>
  Modelled from the spec: the module \<open>./drawable\<close> (the Drawable class with its static
  registry) is required by the renderer but its source is not part of the sources at
  hand. A Drawable has a shader variant, a cached uniform set and a dirty flag; the
  registry maps ids to live Drawables and hands out fresh ids. The uniform set is kept
  opaque (type \<open>'u\<close>).
\<close>

record 'u drawable =
  shaderVariant :: shader
  uniformSet :: 'u
  dirty :: bool

record 'u registry =
  nextDrawable :: drawable_id
  allDrawables :: "drawable_id \<rightharpoonup> 'u drawable"

text \<open>Modelled from the spec: the registry of a freshly loaded Drawable module is empty.\<close>

definition Drawable_module :: "'u registry" where
  "Drawable_module = \<lparr>nextDrawable = 0, allDrawables = Map.empty\<rparr>"

text \<open>
  Modelled from the spec: \<open>new Drawable(renderer, gl)\<close> followed by \<open>getID()\<close>: ``allocates
  a new Drawable with a fresh unique id, [...] registers it, returns the id''; ids are
  ``monotonically increasing''. The state of the new Drawable is the parameter \<open>d0\<close>.
\<close>

definition new_Drawable :: "'u drawable \<Rightarrow> 'u registry \<Rightarrow> drawable_id \<times> 'u registry" where
  "new_Drawable d0 reg =
     (let i = nextDrawable reg
      in (i, \<lparr>nextDrawable = i + 1, allDrawables = (allDrawables reg)(i \<mapsto> d0)\<rparr>))"

text \<open>Modelled from the spec: \<open>Drawable.getDrawableByID\<close>: ``returns the Drawable for id,
  or a not-found signal if absent''.\<close>

definition getDrawableByID :: "'u registry \<Rightarrow> drawable_id \<Rightarrow> 'u drawable option" where
  "getDrawableByID reg i = allDrawables reg i"

text \<open>Modelled from the spec: \<open>dispose()\<close> of the Drawable with id \<open>i\<close>: it ``releases any
  GPU-side resources it owns [...] and removes it from the registry''.\<close>

definition dispose :: "drawable_id \<Rightarrow> 'u registry \<Rightarrow> 'u registry" where
  "dispose i reg = reg\<lparr>allDrawables := (allDrawables reg)(i := None)\<rparr>"

text \<open>Modelled from the spec: \<open>Drawable.dirtyAllTransforms()\<close>: ``sets the dirty flag on
  every registered Drawable''.\<close>

definition dirtyAllTransforms :: "'u registry \<Rightarrow> 'u registry" where
  "dirtyAllTransforms reg =
     reg\<lparr>allDrawables := (\<lambda>i. map_option (\<lambda>d. d\<lparr>dirty := True\<rparr>) (allDrawables reg i))\<rparr>"

text \<open>Modelled from the spec: \<open>getShader()\<close> ``returns the shader variant''.\<close>

definition getShader :: "'u drawable \<Rightarrow> shader" where
  "getShader d = shaderVariant d"

text \<open>
  Modelled from the spec: \<open>getUniforms()\<close>: ``if dirty, recomputes [...] then clears
  dirty; returns the (now fresh) uniform set''. The recomputation from the projection is
  the parameter \<open>recompute\<close>.
\<close>

definition getUniforms ::
  "(mat4 \<Rightarrow> 'u drawable \<Rightarrow> 'u) \<Rightarrow> mat4 \<Rightarrow> 'u drawable \<Rightarrow> 'u \<times> 'u drawable" where
  "getUniforms recompute proj d =
     (if dirty d
      then (let u = recompute proj d in (u, d\<lparr>uniformSet := u, dirty := False\<rparr>))
      else (uniformSet d, d))"

section \<open>RenderWebGL\<close>

record renderer =
  gl_canvas :: canvas
  drawables :: "drawable_id list"
  projection :: mat4
  bufferInfo :: bufferInfo
  backgroundColor :: "number \<times> number \<times> number \<times> number"
  xLeft :: number
  xRight :: number
  yBottom :: number
  yTop :: number

text \<open>The renderer together with the registry of the Drawable module, which is global.\<close>

record 'u world =
  renderer :: renderer
  registry :: "'u registry"

definition setBackgroundColor :: "number \<Rightarrow> number \<Rightarrow> number \<Rightarrow> number \<Rightarrow> 'u world \<Rightarrow> 'u world" where
  "setBackgroundColor red green blue alpha w =
     w\<lparr>renderer := (renderer w)\<lparr>backgroundColor := (red, green, blue, alpha)\<rparr>\<rparr>"

definition setStageSize :: "number \<Rightarrow> number \<Rightarrow> number \<Rightarrow> number \<Rightarrow> 'u world \<Rightarrow> 'u world" where
  "setStageSize xLeft' xRight' yBottom' yTop' w =
     w\<lparr>renderer := (renderer w)
          \<lparr>xLeft := xLeft', xRight := xRight', yBottom := yBottom', yTop := yTop',
           projection := M4_ortho xLeft' xRight' yBottom' yTop' (- 1) 1\<rparr>,
       registry := dirtyAllTransforms (registry w)\<rparr>"

definition resize :: "window \<Rightarrow> jsnum \<Rightarrow> jsnum \<Rightarrow> 'u world \<Rightarrow> 'u world" where
  "resize win pixelsWide pixelsTall w =
     (let pixelRatio = js_or (devicePixelRatio win) 1;
          r = renderer w
      in w\<lparr>renderer := r\<lparr>gl_canvas := (gl_canvas r)
             \<lparr>width := unsigned_long_attribute 300 (js_times pixelsWide (Num pixelRatio)),
              height := unsigned_long_attribute 150 (js_times pixelsTall (Num pixelRatio))\<rparr>\<rparr>\<rparr>)"

definition getProjectionMatrix :: "'u world \<Rightarrow> mat4" where
  "getProjectionMatrix w = projection (renderer w)"

definition quad :: bufferInfo where
  "quad =
     \<lparr>a_position = \<lparr>numComponents = 2,
        data = [- 0.5, - 0.5, 0.5, - 0.5, - 0.5, 0.5, - 0.5, 0.5, 0.5, - 0.5, 0.5, 0.5]\<rparr>,
      a_texCoord = \<lparr>numComponents = 2,
        data = [1, 0, 0, 0, 1, 1, 1, 1, 0, 0, 0, 1]\<rparr>\<rparr>"

definition createGeometry :: "'u world \<Rightarrow> 'u world" where
  "createGeometry w = w\<lparr>renderer := (renderer w)\<lparr>bufferInfo := quad\<rparr>\<rparr>"

text \<open>
  The constructor. The object starts with the fields the constructor assigns directly;
  the fields written by \<open>createGeometry\<close>, \<open>setBackgroundColor\<close>, \<open>setStageSize\<close> and
  \<open>resize\<close> hold placeholders until these run, and each of them is written before it is
  read. The graphics context is taken as acquired: \<open>cv\<close> is its canvas, \<open>reg\<close> the state
  of the Drawable module at the time of the call.
\<close>

definition RenderWebGL ::
  "window \<Rightarrow> 'u registry \<Rightarrow> canvas \<Rightarrow> number option \<Rightarrow> number option \<Rightarrow> number option \<Rightarrow>
   number option \<Rightarrow> number option \<Rightarrow> number option \<Rightarrow> 'u world" where
  "RenderWebGL win reg cv xLeft' xRight' yBottom' yTop' pixelsWide pixelsTall =
     (let w0 = \<lparr>renderer =
                  \<lparr>gl_canvas = cv, drawables = [], projection = M4_identity,
                   bufferInfo = quad, backgroundColor = (0, 0, 0, 0),
                   xLeft = 0, xRight = 0, yBottom = 0, yTop = 0\<rparr>,
                registry = reg\<rparr>;
          w1 = createGeometry w0;
          w2 = setBackgroundColor 1 1 1 1 w1;
          w3 = setStageSize (js_or xLeft' (- 240)) (js_or xRight' 240)
                 (js_or yBottom' (- 180)) (js_or yTop' 180) w2
      in resize win
           (js_or_num pixelsWide
              (Math_abs (js_minus (xRight (renderer w3)) (xLeft (renderer w3)))))
           (js_or_num pixelsTall
              (Math_abs (js_minus (yTop (renderer w3)) (yBottom (renderer w3)))))
           w3)"

subsection \<open>The frame\<close>

text \<open>
  The loop of \<open>draw\<close> over the draw list, from the index reached on. The result is the
  calls issued, the registry afterwards (\<open>getUniforms\<close> clears dirty flags) and the
  exception that ended the loop, if any: calling a method of an id that does not resolve
  (\<open>undefined.getShader()\<close>) throws, and what was issued before stays issued.
\<close>

fun draw_loop ::
  "(mat4 \<Rightarrow> 'u drawable \<Rightarrow> 'u) \<Rightarrow> window \<Rightarrow> renderer \<Rightarrow> shader option \<Rightarrow> drawable_id list \<Rightarrow>
   'u registry \<Rightarrow> 'u gl_call list \<times> 'u registry \<times> js_error option" where
  "draw_loop recompute win r currentShader [] reg = ([], reg, None)"
| "draw_loop recompute win r currentShader (drawableID # rest) reg =
     (case getDrawableByID reg drawableID of
        None \<Rightarrow> ([], reg, Some TypeError)
      | Some drawable \<Rightarrow>
          (let newShader = getShader drawable;
               rebind = (currentShader \<noteq> Some newShader);
               currentShader' = (if rebind then Some newShader else currentShader);
               binds = (if rebind
                        then [UseProgram newShader,
                              SetBuffersAndAttributes newShader (bufferInfo r)]
                        else []);
               (uniforms, drawable') = getUniforms recompute (projection r) drawable;
               reg' = reg\<lparr>allDrawables := (allDrawables reg)(drawableID \<mapsto> drawable')\<rparr>;
               body = binds @
                      [SetUniforms currentShader' (DrawableUniforms drawableID uniforms),
                       SetUniforms currentShader' (U_fudge (js_or (fudge win) 0)),
                       DrawBufferInfo_TRIANGLES (bufferInfo r)];
               (calls, reg'', err) = draw_loop recompute win r currentShader' rest reg'
           in (body @ calls, reg'', err)))"

definition draw ::
  "(mat4 \<Rightarrow> 'u drawable \<Rightarrow> 'u) \<Rightarrow> window \<Rightarrow> 'u world \<Rightarrow>
   'u gl_call list \<times> 'u world \<times> js_error option" where
  "draw recompute win w =
     (let r = renderer w;
          setup = [Viewport 0 0 (clientWidth (gl_canvas r)) (clientHeight (gl_canvas r)),
                   ClearColor (backgroundColor r),
                   Clear_COLOR_BUFFER_BIT,
                   Enable BLEND,
                   BlendFuncSeparate ONE ONE_MINUS_SRC_ALPHA ZERO ONE];
          (calls, reg', err) = draw_loop recompute win r None (drawables r) (registry w)
      in (setup @ calls, w\<lparr>registry := reg'\<rparr>, err))"

subsection \<open>Drawable lifecycle\<close>

definition createDrawable :: "'u drawable \<Rightarrow> 'u world \<Rightarrow> drawable_id \<times> 'u world" where
  "createDrawable d0 w =
     (let (drawableID, reg') = new_Drawable d0 (registry w)
      in (drawableID,
          w\<lparr>renderer := (renderer w)\<lparr>drawables := push (drawables (renderer w)) drawableID\<rparr>,
            registry := reg'\<rparr>))"

definition destroyDrawable :: "drawable_id \<Rightarrow> 'u world \<Rightarrow> js_error + (bool \<times> 'u world)" where
  "destroyDrawable drawableID w =
     (let index = indexOf (drawables (renderer w)) drawableID
      in if index \<ge> 0
         then (case getDrawableByID (registry w) drawableID of
                 None \<Rightarrow> Inl TypeError
               | Some drawable \<Rightarrow>
                   (let w' = w\<lparr>registry := dispose drawableID (registry w)\<rparr>;
                        w'' = w'\<lparr>renderer := (renderer w')
                                 \<lparr>drawables := splice_array (drawables (renderer w')) index 1\<rparr>\<rparr>
                    in Inr (True, w'')))
         else Inr (False, w))"

text \<open>\<open>updateProperties\<close> of the Drawable class is the parameter \<open>updateProperties\<close>.\<close>

definition updateDrawableProperties ::
  "('p \<Rightarrow> 'u drawable \<Rightarrow> 'u drawable) \<Rightarrow> drawable_id \<Rightarrow> 'p \<Rightarrow> 'u world \<Rightarrow> 'u world" where
  "updateDrawableProperties updateProperties drawableID properties w =
     (case getDrawableByID (registry w) drawableID of
        None \<Rightarrow> w
      | Some drawable \<Rightarrow>
          w\<lparr>registry := (registry w)
              \<lparr>allDrawables := (allDrawables (registry w))
                  (drawableID \<mapsto> updateProperties properties drawable)\<rparr>\<rparr>)"

section \<open>Sequences of lifecycle calls\<close>

datatype 'u op = CreateDrawable "'u drawable" | DestroyDrawable drawable_id

fun apply_op :: "'u op \<Rightarrow> 'u world \<Rightarrow> js_error + 'u world" where
  "apply_op (CreateDrawable d0) w = Inr (snd (createDrawable d0 w))"
| "apply_op (DestroyDrawable i) w =
     (case destroyDrawable i w of Inl e \<Rightarrow> Inl e | Inr (found, w') \<Rightarrow> Inr w')"

fun run :: "'u op list \<Rightarrow> 'u world \<Rightarrow> js_error + 'u world" where
  "run [] w = Inr w"
| "run (c # cs) w = (case apply_op c w of Inl e \<Rightarrow> Inl e | Inr w' \<Rightarrow> run cs w')"

text \<open>The draw list has no duplicate and every id in it resolves.\<close>

definition consistent :: "'u world \<Rightarrow> bool" where
  "consistent w =
     (distinct (drawables (renderer w)) \<and>
      list_all (\<lambda>i. getDrawableByID (registry w) i \<noteq> None) (drawables (renderer w)))"

text \<open>The draw list has no duplicate, holds exactly the ids that resolve, and every id
  in it was handed out before.\<close>

definition live_exact :: "'u world \<Rightarrow> bool" where
  "live_exact w =
     (distinct (drawables (renderer w)) \<and>
      set (drawables (renderer w)) = dom (allDrawables (registry w)) \<and>
      list_all (\<lambda>i. i < nextDrawable (registry w)) (drawables (renderer w)))"

section \<open>Reading a frame's calls\<close>

text \<open>
  The drawables painted by a sequence of calls, in the order they are painted: a draw call
  paints the drawable whose uniform set was applied last.
\<close>

fun paint_order :: "drawable_id option \<Rightarrow> 'u gl_call list \<Rightarrow> drawable_id list" where
  "paint_order cur [] = []"
| "paint_order cur (SetUniforms s (DrawableUniforms i u) # cs) = paint_order (Some i) cs"
| "paint_order cur (DrawBufferInfo_TRIANGLES b # cs) =
     (case cur of None \<Rightarrow> [] | Some i \<Rightarrow> [i]) @ paint_order cur cs"
| "paint_order cur (c # cs) = paint_order cur cs"

text \<open>The shader programs bound, in order, and the calls that bind a shader program or
  its vertex attributes.\<close>

definition programs_used :: "'u gl_call list \<Rightarrow> shader list" where
  "programs_used calls =
     concat (map (\<lambda>c. case c of UseProgram s \<Rightarrow> [s] | _ \<Rightarrow> []) calls)"

fun is_bind :: "'u gl_call \<Rightarrow> bool" where
  "is_bind (UseProgram s) = True"
| "is_bind (SetBuffersAndAttributes s b) = True"
| "is_bind c = False"

text \<open>The shader variants of the draw list, in list order.\<close>

definition shaders_of :: "'u registry \<Rightarrow> drawable_id list \<Rightarrow> shader list" where
  "shaders_of reg ids =
     concat (map (\<lambda>i. case getDrawableByID reg i of None \<Rightarrow> [] | Some d \<Rightarrow> [getShader d]) ids)"

subsection \<open>Blending\<close>

text \<open>
  The blend state of the WebGL context: whether blending is on, and the four factors
  (source colour, destination colour, source alpha, destination alpha). A fresh context
  has blending off and factors \<open>ONE, ZERO, ONE, ZERO\<close>.
\<close>

record blend_state =
  blending :: bool
  factors :: "blend_factor \<times> blend_factor \<times> blend_factor \<times> blend_factor"

definition fresh_context :: blend_state where
  "fresh_context = \<lparr>blending = False, factors = (ONE, ZERO, ONE, ZERO)\<rparr>"

fun blend_exec :: "blend_state \<Rightarrow> 'u gl_call \<Rightarrow> blend_state" where
  "blend_exec st (Enable BLEND) = st\<lparr>blending := True\<rparr>"
| "blend_exec st (BlendFunc sf df) = st\<lparr>factors := (sf, df, sf, df)\<rparr>"
| "blend_exec st (BlendFuncSeparate sRGB dRGB sA dA) = st\<lparr>factors := (sRGB, dRGB, sA, dA)\<rparr>"
| "blend_exec st c = st"

text \<open>The blend state in force at each draw call of a sequence of calls.\<close>

fun blend_at_draws :: "blend_state \<Rightarrow> 'u gl_call list \<Rightarrow> blend_state list" where
  "blend_at_draws st [] = []"
| "blend_at_draws st (DrawBufferInfo_TRIANGLES b # cs) = st # blend_at_draws st cs"
| "blend_at_draws st (c # cs) = blend_at_draws (blend_exec st c) cs"

definition blend_after :: "blend_state \<Rightarrow> 'u gl_call list \<Rightarrow> blend_state" where
  "blend_after st calls = foldl blend_exec st calls"

text \<open>The calls that change the blend state.\<close>

fun changes_blend :: "'u gl_call \<Rightarrow> bool" where
  "changes_blend (Enable c) = True"
| "changes_blend (BlendFunc sf df) = True"
| "changes_blend (BlendFuncSeparate sRGB dRGB sA dA) = True"
| "changes_blend c = False"

fun is_BlendFunc :: "'u gl_call \<Rightarrow> bool" where
  "is_BlendFunc (BlendFunc sf df) = True"
| "is_BlendFunc c = False"

text \<open>
  The blend equation of the WebGL API (\<open>FUNC_ADD\<close>, the default; before the clamp to the
  range of the colour buffer): each channel of the result is source times source factor
  plus destination times destination factor. A colour is (red, green, blue, alpha).
\<close>

type_synonym colour = "number \<times> number \<times> number \<times> number"

fun factor_value :: "blend_factor \<Rightarrow> number \<Rightarrow> number" where
  "factor_value ZERO srcAlpha = 0"
| "factor_value ONE srcAlpha = 1"
| "factor_value SRC_ALPHA srcAlpha = srcAlpha"
| "factor_value ONE_MINUS_SRC_ALPHA srcAlpha = 1 - srcAlpha"

fun blend :: "blend_factor \<times> blend_factor \<times> blend_factor \<times> blend_factor \<Rightarrow> colour \<Rightarrow> colour \<Rightarrow> colour" where
  "blend (sRGB, dRGB, sA, dA) (r, g, b, a) (r', g', b', a') =
     (r * factor_value sRGB a + r' * factor_value dRGB a,
      g * factor_value sRGB a + g' * factor_value dRGB a,
      b * factor_value sRGB a + b' * factor_value dRGB a,
      a * factor_value sA a + a' * factor_value dA a)"

text \<open>
  In the words of the specification: ``color blended as straight alpha over destination,
  alpha accumulated additively''.
\<close>

fun spec_straight_alpha_additive :: "colour \<Rightarrow> colour \<Rightarrow> colour" where
  "spec_straight_alpha_additive (r, g, b, a) (r', g', b', a') =
     (r * a + r' * (1 - a), g * a + g' * (1 - a), b * a + b' * (1 - a), a + a')"

section \<open>A small scene\<close>

text \<open>
  Four drawables with shader variants 1, 1, 2, 1, created in a renderer built with the
  default stage on a display of pixel density 2; and the same scene after the host has
  disposed drawable 0 through the Drawable module directly. Their uniform sets are plain
  numbers and are never recomputed.
\<close>

definition example_window :: window where
  "example_window = \<lparr>devicePixelRatio = Some 2, fudge = None\<rparr>"

definition example_canvas :: canvas where
  "example_canvas = \<lparr>width = 300, height = 150, clientWidth = 480, clientHeight = 360\<rparr>"

definition scene_with :: "shader list \<Rightarrow> nat world" where
  "scene_with shaders =
     foldl (\<lambda>w s. snd (createDrawable \<lparr>shaderVariant = s, uniformSet = 0, dirty = True\<rparr> w))
       (RenderWebGL example_window Drawable_module example_canvas None None None None None None)
       shaders"

definition example_scene :: "nat world" where
  "example_scene = scene_with [1, 1, 2, 1]"

definition stale_scene :: "nat world" where
  "stale_scene = example_scene\<lparr>registry := dispose 0 (registry example_scene)\<rparr>"

definition cached_uniforms :: "mat4 \<Rightarrow> nat drawable \<Rightarrow> nat" where
  "cached_uniforms proj d = uniformSet d"

section \<open>Numbers\<close>

text \<open>
  Rounding leaves alone what a double can hold: a natural number below \<open>2 ^ 53\<close> divided
  by a power of two down to the subnormal spacing. Half of the smallest subnormal rounds
  to zero.
\<close>

lemma round_half_even_of_int: "round_half_even (of_int m) = m"
  by (simp add: round_half_even_def)

lemma powi_neg: "(2::real) powi (- int m) = 1 / 2 ^ m"
  by (simp add: power_int_minus inverse_eq_divide)

lemma fl64_dyadic:
  assumes "n < 2 ^ 53" and "j \<le> 1074"
  shows "fl64 (real n / 2 ^ j) = Num (real n / 2 ^ j)"
proof (cases "n = 0")
  case True
  then show ?thesis by (simp add: fl64_def)
next
  case False
  define x where "x = real n / 2 ^ j"
  have pos: "0 < x" using False by (simp add: x_def)
  define e where "e = \<lfloor>log 2 x\<rfloor>"
  have n53: "real n < 2 ^ 53"
    using assms(1) by (metis of_nat_less_iff of_nat_numeral of_nat_power)
  have "x < 2 powr (53 - real j)"
  proof -
    have "x < 2 ^ 53 / 2 ^ j" using n53 by (simp add: x_def divide_strict_right_mono)
    also have "\<dots> = 2 powr (53 - real j)"
      by (simp add: powr_diff powr_realpow)
    finally show ?thesis .
  qed
  then have "log 2 x < 53 - real j"
    using pos by (simp add: log_less_iff)
  then have "e < 53 - int j"
    unfolding e_def by (simp add: floor_less_iff)
  then have e52: "e - 52 \<le> - int j" by simp
  define q where "q = max (e - 52) (- 1074)"
  have qj: "q \<le> - int j" using e52 assms(2) by (simp add: q_def)
  define k where "k = nat (- q - int j)"
  have qk: "q = - int (j + k)" using qj by (simp add: k_def)
  have p: "(2::real) powi q = 1 / 2 ^ (j + k)"
    unfolding qk by (rule powi_neg)
  have quot: "x / 2 powi q = of_int (int n * 2 ^ k)"
    by (simp add: p x_def power_add)
  have y: "of_int (round_half_even (x / 2 powi q)) * 2 powi q = x"
    unfolding quot round_half_even_of_int by (simp add: p x_def power_add)
  have small: "x < overflow_threshold"
  proof -
    have "(1::real) \<le> 2 ^ j" by simp
    then have "real n * 1 \<le> real n * 2 ^ j" by (intro mult_left_mono) simp_all
    then have "x \<le> real n" by (simp add: x_def divide_le_eq)
    also note n53
    also have "(2::real) ^ 53 \<le> 2 ^ 1024" by (rule power_increasing) simp_all
    finally show ?thesis by (simp only: overflow_threshold_def)
  qed
  have abs: "\<bar>x\<bar> = x" using pos by simp
  have nz: "x \<noteq> 0" using pos by simp
  have "fl64 x = Num x"
    unfolding fl64_def Let_def abs e_def [symmetric] q_def [symmetric] y
    using small pos nz by simp
  then show ?thesis by (simp only: x_def)
qed

lemma fl64_of_nat: "n < 2 ^ 53 \<Longrightarrow> fl64 (real n) = Num (real n)"
  using fl64_dyadic [of n 0] by simp

lemma fl64_underflow:
  assumes "m = Suc 1074"
  shows "fl64 (1 / 2 ^ m) = Num 0"
proof -
  have "log 2 (1 / 2 ^ m :: real) = - real m"
    by (simp add: log_divide log_nat_power)
  moreover have "\<lfloor>- real m\<rfloor> = - int m"
    by (metis floor_of_int of_int_minus of_int_of_nat_eq)
  ultimately have l: "\<lfloor>log 2 \<bar>1 / 2 ^ m :: real\<bar>\<rfloor> = - int m"
    by simp
  have q: "max (- int m - 52) (- 1074 :: int) = - int 1074"
    using assms by simp
  have "(1 / 2 ^ m :: real) / 2 powi (- int 1074) = 2 ^ 1074 / 2 ^ m"
    unfolding powi_neg by simp
  also have "\<dots> = 1 / 2"
    unfolding assms power_Suc by simp
  finally have d: "(1 / 2 ^ m :: real) / 2 powi (- int 1074) = 1 / 2" .
  have r: "round_half_even (1 / 2) = 0"
    by (simp add: round_half_even_def)
  have o: "\<not> overflow_threshold \<le> 0" "\<not> 0 \<le> - overflow_threshold"
    by (simp_all add: overflow_threshold_def)
  have nz: "(1 / 2 ^ m :: real) \<noteq> 0" by simp
  show ?thesis
    unfolding fl64_def Let_def l q d r using o nz by simp
qed

lemma js_times_underflow: "js_times (Num (1 / 2 ^ 1074)) (Num (1 / 2)) = Num 0"
proof -
  have "(1 / 2 ^ 1074 :: real) * (1 / 2) = 1 / 2 ^ Suc 1074" by simp
  then show ?thesis using fl64_underflow [of "Suc 1074"] by (simp del: power_Suc)
qed

lemma ToUint32_dyadic:
  assumes "n div 2 ^ j < 4294967296"
  shows "ToUint32 (Num (real n / 2 ^ j)) = n div 2 ^ j"
proof -
  have "\<lfloor>real n / 2 ^ j\<rfloor> = int (n div 2 ^ j)"
    using floor_divide_of_nat_eq [of n "2 ^ j"] by simp
  moreover have "int (n div 2 ^ j) mod 4294967296 = int (n div 2 ^ j)"
    using assms by simp
  ultimately show ?thesis by (simp add: ToUint32_def)
qed

lemma unsigned_long_attribute_dyadic:
  assumes "n div 2 ^ j \<le> 2147483647"
  shows "unsigned_long_attribute fallback (Num (real n / 2 ^ j)) = n div 2 ^ j"
proof -
  from assms have "n div 2 ^ j < 4294967296" by simp
  then show ?thesis using assms by (simp add: unsigned_long_attribute_def ToUint32_dyadic)
qed

lemma js_times_dyadic:
  assumes "x * y = real n / 2 ^ j" "n < 2 ^ 53" "j \<le> 1074"
  shows "js_times (Num x) (Num y) = Num (real n / 2 ^ j)"
  using fl64_dyadic [OF assms(2,3)] assms(1) by simp

section \<open>Arrays\<close>

lemma indexOf_from_range:
  "indexOf_from xs x i = - 1 \<or> (i \<le> indexOf_from xs x i \<and> indexOf_from xs x i < i + int (length xs))"
  by (induction xs arbitrary: i) (auto, force+)

lemma indexOf_from_absent: "0 \<le> i \<Longrightarrow> (indexOf_from xs x i < 0) = (x \<notin> set xs)"
proof (induction xs arbitrary: i)
  case Nil
  then show ?case by simp
next
  case (Cons y ys)
  then show ?case by (cases "y = x") auto
qed

lemma indexOf_present: "(0 \<le> indexOf xs x) = (x \<in> set xs)"
  using indexOf_from_absent [of 0 xs x] by (auto simp: indexOf_def)

lemma splice_indexOf: "x \<in> set xs \<Longrightarrow> 0 \<le> i \<Longrightarrow>
   take (nat (indexOf_from xs x i - i)) xs @ drop (nat (indexOf_from xs x i - i) + 1) xs = remove1 x xs"
proof (induction xs arbitrary: i)
  case Nil
  then show ?case by simp
next
  case (Cons y ys)
  show ?case
  proof (cases "y = x")
    case True
    then show ?thesis by simp
  next
    case False
    with Cons.prems have xin: "x \<in> set ys" by simp
    have "indexOf_from ys x (i + 1) - i = (indexOf_from ys x (i + 1) - (i + 1)) + 1" by simp
    moreover have "0 \<le> indexOf_from ys x (i + 1) - (i + 1)"
      using indexOf_from_range [of ys x "i + 1"] indexOf_from_absent [of "i + 1" ys x] xin Cons.prems(2)
      by auto
    ultimately have "nat (indexOf_from ys x (i + 1) - i) = Suc (nat (indexOf_from ys x (i + 1) - (i + 1)))"
      by linarith
    with False Cons.IH [OF xin, of "i + 1"] Cons.prems(2) show ?thesis by simp
  qed
qed

lemma splice_remove1: "x \<in> set xs \<Longrightarrow> splice_array xs (indexOf xs x) (Suc 0) = remove1 x xs"
proof -
  assume xin: "x \<in> set xs"
  have r: "0 \<le> indexOf xs x \<and> indexOf xs x < int (length xs)"
    using indexOf_from_range [of xs x 0] indexOf_present [of xs x] xin by (auto simp: indexOf_def)
  then have "nat (min (indexOf xs x) (int (length xs))) = nat (indexOf xs x)" by simp
  with r splice_indexOf [OF xin, of 0] show ?thesis
    by (simp add: splice_array_def indexOf_def Let_def)
qed

section \<open>The draw list and the registry\<close>

lemma createDrawable_live_exact:
  assumes "live_exact w"
  shows "live_exact (snd (createDrawable d0 w))"
proof -
  from assms have "nextDrawable (registry w) \<notin> set (drawables (renderer w))"
    by (auto simp: live_exact_def list_all_iff)
  with assms show ?thesis
    by (auto simp: live_exact_def createDrawable_def new_Drawable_def push_def Let_def
          list_all_iff less_Suc_eq)
qed

lemma destroyDrawable_present:
  assumes "i \<in> set (drawables (renderer w))" "getDrawableByID (registry w) i = Some d"
  shows "destroyDrawable i w =
           Inr (True, w\<lparr>registry := dispose i (registry w),
                        renderer := (renderer w)\<lparr>drawables := remove1 i (drawables (renderer w))\<rparr>\<rparr>)"
  using assms indexOf_present [of "drawables (renderer w)" i]
  by (simp add: destroyDrawable_def Let_def splice_remove1)

lemma destroyDrawable_absent:
  assumes "i \<notin> set (drawables (renderer w))"
  shows "destroyDrawable i w = Inr (False, w)"
  using assms indexOf_present [of "drawables (renderer w)" i]
  by (simp add: destroyDrawable_def Let_def)

lemma destroyDrawable_live_exact:
  assumes "live_exact w"
  shows "\<exists>found w'. destroyDrawable i w = Inr (found, w') \<and> live_exact w'"
proof (cases "i \<in> set (drawables (renderer w))")
  case True
  with assms obtain d where d: "getDrawableByID (registry w) i = Some d"
    by (auto simp: live_exact_def getDrawableByID_def)
  from assms True show ?thesis
    unfolding destroyDrawable_present [OF True d]
    by (auto simp: live_exact_def dispose_def list_all_iff)
next
  case False
  with assms show ?thesis by (auto simp: destroyDrawable_absent)
qed

lemma apply_op_live_exact:
  assumes "live_exact w"
  shows "\<exists>w'. apply_op c w = Inr w' \<and> live_exact w'"
proof (cases c)
  case (CreateDrawable d0)
  with assms show ?thesis by (simp add: createDrawable_live_exact)
next
  case (DestroyDrawable i)
  with destroyDrawable_live_exact [OF assms, of i] show ?thesis by auto
qed

lemma run_live_exact:
  "live_exact w \<Longrightarrow> \<exists>w'. run cs w = Inr w' \<and> live_exact w'"
proof (induction cs arbitrary: w)
  case Nil
  then show ?case by simp
next
  case (Cons c cs)
  from apply_op_live_exact [OF Cons.prems, of c]
  obtain w1 where w1: "apply_op c w = Inr w1" "live_exact w1" by blast
  with Cons.IH [OF w1(2)] show ?case by simp
qed

lemma RenderWebGL_drawables:
  "drawables (renderer (RenderWebGL win reg cv a b c d e f)) = []"
  by (simp add: RenderWebGL_def createGeometry_def setBackgroundColor_def setStageSize_def
        resize_def Let_def)

lemma RenderWebGL_registry:
  "registry (RenderWebGL win reg cv a b c d e f) = dirtyAllTransforms reg"
  by (simp add: RenderWebGL_def createGeometry_def setBackgroundColor_def setStageSize_def
        resize_def Let_def)

lemma RenderWebGL_live_exact:
  "live_exact (RenderWebGL win Drawable_module cv a b c d e f)"
  by (simp add: live_exact_def RenderWebGL_drawables RenderWebGL_registry
        dirtyAllTransforms_def Drawable_module_def dom_def)

text \<open>
  C1. Start from a freshly constructed renderer (with the registry of a freshly loaded
  Drawable module) and make any sequence of \<open>createDrawable\<close> and \<open>destroyDrawable\<close>
  calls: no call throws, and afterwards the draw list has no duplicate id and holds
  exactly the ids that are live in the registry.
\<close>

theorem draw_list_is_live_set:
  "\<exists>w. run cs (RenderWebGL win Drawable_module cv a b c d e f) = Inr w \<and>
        distinct (drawables (renderer w)) \<and>
        set (drawables (renderer w)) = dom (allDrawables (registry w))"
  using run_live_exact [OF RenderWebGL_live_exact, of cs win cv a b c d e f]
  by (auto simp: live_exact_def)

section \<open>The frame: paint order and shader binds\<close>

lemma getUniforms_shader: "shaderVariant (snd (getUniforms rc proj d)) = shaderVariant d"
  by (simp add: getUniforms_def Let_def)

lemma shaders_of_Nil: "shaders_of reg [] = []"
  by (simp add: shaders_of_def)

lemma shaders_of_Cons:
  "getDrawableByID reg i = Some d \<Longrightarrow> shaders_of reg (i # ids) = shaderVariant d # shaders_of reg ids"
  by (simp add: shaders_of_def getShader_def)

lemma shaders_of_cong:
  assumes "\<And>i. map_option shaderVariant (allDrawables reg' i) = map_option shaderVariant (allDrawables reg i)"
  shows "shaders_of reg' ids = shaders_of reg ids"
proof -
  have "(case getDrawableByID reg' i of None \<Rightarrow> [] | Some d \<Rightarrow> [getShader d]) =
        (case getDrawableByID reg i of None \<Rightarrow> [] | Some d \<Rightarrow> [getShader d])" for i
    using assms [of i]
    by (cases "allDrawables reg i"; cases "allDrawables reg' i")
       (simp_all add: getDrawableByID_def getShader_def)
  then show ?thesis by (simp add: shaders_of_def)
qed

lemma remdups_adj_head: "s # tl (remdups_adj (s # ss)) = remdups_adj (s # ss)"
  by (cases ss) (auto simp: remdups_adj_Cons split: list.splits)

lemma draw_loop_step:
  assumes "getDrawableByID reg i = Some d"
  shows "draw_loop rc win r cur (i # rest) reg =
     (let cur' = Some (shaderVariant d);
          ud = getUniforms rc (projection r) d;
          res = draw_loop rc win r cur' rest (reg\<lparr>allDrawables := (allDrawables reg)(i \<mapsto> snd ud)\<rparr>)
      in ((if cur \<noteq> cur'
           then [UseProgram (shaderVariant d), SetBuffersAndAttributes (shaderVariant d) (bufferInfo r)]
           else []) @
          [SetUniforms cur' (DrawableUniforms i (fst ud)),
           SetUniforms cur' (U_fudge (js_or (fudge win) 0)),
           DrawBufferInfo_TRIANGLES (bufferInfo r)] @ fst res,
          snd res))"
  using assms by (auto simp: Let_def getShader_def split: prod.splits)

lemma draw_loop_resolved:
  assumes "\<forall>i\<in>set ids. getDrawableByID reg i \<noteq> None"
  shows "\<exists>calls reg'. draw_loop rc win r cur ids reg = (calls, reg', None) \<and>
           (\<forall>i. map_option shaderVariant (allDrawables reg' i) =
                map_option shaderVariant (allDrawables reg i)) \<and>
           paint_order p calls = ids \<and>
           programs_used calls =
             (case cur of None \<Rightarrow> remdups_adj (shaders_of reg ids)
                        | Some c \<Rightarrow> tl (remdups_adj (c # shaders_of reg ids))) \<and>
           filter is_bind calls =
             concat (map (\<lambda>s. [UseProgram s, SetBuffersAndAttributes s (bufferInfo r)])
                       (programs_used calls))"
  using assms
proof (induction ids arbitrary: reg cur p)
  case Nil
  then show ?case
    by (cases cur) (simp_all add: shaders_of_Nil programs_used_def)
next
  case (Cons i rest)
  then obtain d where d: "getDrawableByID reg i = Some d" by auto
  define ud where "ud = getUniforms rc (projection r) d"
  define reg1 where "reg1 = reg\<lparr>allDrawables := (allDrawables reg)(i \<mapsto> snd ud)\<rparr>"
  have sv: "map_option shaderVariant (allDrawables reg1 j) = map_option shaderVariant (allDrawables reg j)" for j
    using d by (simp add: reg1_def ud_def getUniforms_shader getDrawableByID_def)
  have res: "\<forall>j\<in>set rest. getDrawableByID reg1 j \<noteq> None"
  proof
    fix j assume "j \<in> set rest"
    with Cons.prems have "allDrawables reg j \<noteq> None" by (simp add: getDrawableByID_def)
    with sv [of j] show "getDrawableByID reg1 j \<noteq> None"
      by (auto simp: getDrawableByID_def)
  qed
  from Cons.IH [OF res, of "Some (shaderVariant d)" "Some i"]
  obtain calls reg2 where
    loop: "draw_loop rc win r (Some (shaderVariant d)) rest reg1 = (calls, reg2, None)" and
    sv2: "\<forall>j. map_option shaderVariant (allDrawables reg2 j) = map_option shaderVariant (allDrawables reg1 j)" and
    po: "paint_order (Some i) calls = rest" and
    pu: "programs_used calls = tl (remdups_adj (shaderVariant d # shaders_of reg1 rest))" and
    ab: "filter is_bind calls =
           concat (map (\<lambda>s. [UseProgram s, SetBuffersAndAttributes s (bufferInfo r)])
                     (programs_used calls))"
    by auto
  have so: "shaders_of reg1 rest = shaders_of reg rest"
    using sv by (rule shaders_of_cong)
  have step: "draw_loop rc win r cur (i # rest) reg =
     ((if cur \<noteq> Some (shaderVariant d)
       then [UseProgram (shaderVariant d), SetBuffersAndAttributes (shaderVariant d) (bufferInfo r)]
       else []) @
      [SetUniforms (Some (shaderVariant d)) (DrawableUniforms i (fst ud)),
       SetUniforms (Some (shaderVariant d)) (U_fudge (js_or (fudge win) 0)),
       DrawBufferInfo_TRIANGLES (bufferInfo r)] @ calls, reg2, None)"
    unfolding draw_loop_step [OF d] by (simp add: Let_def ud_def [symmetric] reg1_def [symmetric] loop)
  have "paint_order p ((if cur \<noteq> Some (shaderVariant d)
       then [UseProgram (shaderVariant d), SetBuffersAndAttributes (shaderVariant d) (bufferInfo r)]
       else []) @
      [SetUniforms (Some (shaderVariant d)) (DrawableUniforms i (fst ud)),
       SetUniforms (Some (shaderVariant d)) (U_fudge (js_or (fudge win) 0)),
       DrawBufferInfo_TRIANGLES (bufferInfo r)] @ calls) = i # rest"
    using po by simp
  moreover have "programs_used ((if cur \<noteq> Some (shaderVariant d)
       then [UseProgram (shaderVariant d), SetBuffersAndAttributes (shaderVariant d) (bufferInfo r)]
       else []) @
      [SetUniforms (Some (shaderVariant d)) (DrawableUniforms i (fst ud)),
       SetUniforms (Some (shaderVariant d)) (U_fudge (js_or (fudge win) 0)),
       DrawBufferInfo_TRIANGLES (bufferInfo r)] @ calls) =
      (case cur of None \<Rightarrow> remdups_adj (shaders_of reg (i # rest))
                 | Some c \<Rightarrow> tl (remdups_adj (c # shaders_of reg (i # rest))))"
  proof (cases "cur = Some (shaderVariant d)")
    case True
    then show ?thesis
      by (simp add: programs_used_def pu [unfolded programs_used_def] so shaders_of_Cons [OF d])
  next
    case False
    then have "programs_used ((if cur \<noteq> Some (shaderVariant d)
       then [UseProgram (shaderVariant d), SetBuffersAndAttributes (shaderVariant d) (bufferInfo r)]
       else []) @
      [SetUniforms (Some (shaderVariant d)) (DrawableUniforms i (fst ud)),
       SetUniforms (Some (shaderVariant d)) (U_fudge (js_or (fudge win) 0)),
       DrawBufferInfo_TRIANGLES (bufferInfo r)] @ calls) =
       shaderVariant d # tl (remdups_adj (shaderVariant d # shaders_of reg rest))"
      by (simp add: programs_used_def pu [unfolded programs_used_def] so)
    also have "\<dots> = remdups_adj (shaderVariant d # shaders_of reg rest)"
      by (rule remdups_adj_head)
    finally show ?thesis using False
      by (cases cur) (simp_all add: shaders_of_Cons [OF d])
  qed
  moreover have "filter is_bind ((if cur \<noteq> Some (shaderVariant d)
       then [UseProgram (shaderVariant d), SetBuffersAndAttributes (shaderVariant d) (bufferInfo r)]
       else []) @
      [SetUniforms (Some (shaderVariant d)) (DrawableUniforms i (fst ud)),
       SetUniforms (Some (shaderVariant d)) (U_fudge (js_or (fudge win) 0)),
       DrawBufferInfo_TRIANGLES (bufferInfo r)] @ calls) =
     concat (map (\<lambda>s. [UseProgram s, SetBuffersAndAttributes s (bufferInfo r)])
       (programs_used ((if cur \<noteq> Some (shaderVariant d)
       then [UseProgram (shaderVariant d), SetBuffersAndAttributes (shaderVariant d) (bufferInfo r)]
       else []) @
      [SetUniforms (Some (shaderVariant d)) (DrawableUniforms i (fst ud)),
       SetUniforms (Some (shaderVariant d)) (U_fudge (js_or (fudge win) 0)),
       DrawBufferInfo_TRIANGLES (bufferInfo r)] @ calls)))"
    using ab by (simp add: programs_used_def)
  moreover have "\<forall>j. map_option shaderVariant (allDrawables reg2 j) = map_option shaderVariant (allDrawables reg j)"
    using sv sv2 by simp
  ultimately show ?case unfolding step by blast
qed

lemma draw_resolved:
  assumes "list_all (\<lambda>i. getDrawableByID (registry w) i \<noteq> None) (drawables (renderer w))"
  shows "\<exists>calls w'. draw rc win w = (calls, w', None) \<and>
           renderer w' = renderer w \<and>
           (\<forall>i. map_option shaderVariant (allDrawables (registry w') i) =
                map_option shaderVariant (allDrawables (registry w) i)) \<and>
           paint_order None calls = drawables (renderer w) \<and>
           programs_used calls = remdups_adj (shaders_of (registry w) (drawables (renderer w))) \<and>
           filter is_bind calls =
             concat (map (\<lambda>s. [UseProgram s, SetBuffersAndAttributes s (bufferInfo (renderer w))])
                       (programs_used calls))"
proof -
  from assms have "\<forall>i\<in>set (drawables (renderer w)). getDrawableByID (registry w) i \<noteq> None"
    by (simp add: list_all_iff)
  from draw_loop_resolved [OF this, of rc win "renderer w" None None]
  obtain calls reg' where
    loop: "draw_loop rc win (renderer w) None (drawables (renderer w)) (registry w) = (calls, reg', None)" and
    sv: "\<forall>i. map_option shaderVariant (allDrawables reg' i) =
             map_option shaderVariant (allDrawables (registry w) i)" and
    po: "paint_order None calls = drawables (renderer w)" and
    pu: "programs_used calls = remdups_adj (shaders_of (registry w) (drawables (renderer w)))" and
    ab: "filter is_bind calls =
           concat (map (\<lambda>s. [UseProgram s, SetBuffersAndAttributes s (bufferInfo (renderer w))])
                     (programs_used calls))"
    by auto
  show ?thesis
    using sv po pu ab by (simp add: draw_def Let_def loop programs_used_def)
qed

lemma scene_drawables: "drawables (renderer example_scene) = [0, 1, 2, 3]"
  by (simp add: example_scene_def scene_with_def createDrawable_def new_Drawable_def push_def
        Let_def RenderWebGL_drawables RenderWebGL_registry dirtyAllTransforms_def
        Drawable_module_def)

lemma scene_registry:
  "registry example_scene =
     \<lparr>nextDrawable = 4,
      allDrawables = [0 \<mapsto> \<lparr>shaderVariant = 1, uniformSet = 0, dirty = True\<rparr>,
                      1 \<mapsto> \<lparr>shaderVariant = 1, uniformSet = 0, dirty = True\<rparr>,
                      2 \<mapsto> \<lparr>shaderVariant = 2, uniformSet = 0, dirty = True\<rparr>,
                      3 \<mapsto> \<lparr>shaderVariant = 1, uniformSet = 0, dirty = True\<rparr>]\<rparr>"
  by (simp add: example_scene_def scene_with_def createDrawable_def new_Drawable_def push_def
        Let_def RenderWebGL_drawables RenderWebGL_registry dirtyAllTransforms_def
        Drawable_module_def numeral_2_eq_2 numeral_3_eq_3)

lemma scene_shaders: "shaders_of (registry example_scene) (drawables (renderer example_scene)) = [1, 1, 2, 1]"
  by (simp add: scene_drawables scene_registry shaders_of_def getDrawableByID_def getShader_def)

lemma createDrawable_drawables:
  "drawables (renderer (snd (createDrawable d0 w))) = drawables (renderer w) @ [fst (createDrawable d0 w)]"
  by (simp add: createDrawable_def new_Drawable_def push_def Let_def)

lemma createDrawable_resolved:
  assumes "list_all (\<lambda>i. getDrawableByID (registry w) i \<noteq> None) (drawables (renderer w))"
  shows "list_all (\<lambda>i. getDrawableByID (registry (snd (createDrawable d0 w))) i \<noteq> None)
           (drawables (renderer (snd (createDrawable d0 w))))"
  using assms
  by (auto simp: createDrawable_def new_Drawable_def push_def Let_def getDrawableByID_def list_all_iff)

lemma draw_keeps_resolved:
  assumes "list_all (\<lambda>i. getDrawableByID (registry w) i \<noteq> None) (drawables (renderer w))"
    and "renderer w' = renderer w"
    and "\<forall>i. map_option shaderVariant (allDrawables (registry w') i) =
             map_option shaderVariant (allDrawables (registry w) i)"
  shows "list_all (\<lambda>i. getDrawableByID (registry w') i \<noteq> None) (drawables (renderer w'))"
  unfolding list_all_iff
proof
  fix i assume "i \<in> set (drawables (renderer w'))"
  with assms(1,2) have "allDrawables (registry w) i \<noteq> None"
    by (simp add: list_all_iff getDrawableByID_def)
  with assms(3) show "getDrawableByID (registry w') i \<noteq> None"
    by (metis getDrawableByID_def option.map_disc_iff)
qed

text \<open>
  C2. When every id of the draw list resolves, \<open>draw\<close> throws nothing and paints the
  drawables in exactly the order of the draw list, frame after frame (the frame leaves the
  list as it is and every id resolving). \<open>createDrawable\<close> puts the new id at the end of
  the list. So of two drawables created one after the other, the first is painted before
  the second, after everything that was there.
\<close>

theorem paint_order_is_draw_list_order:
  assumes "list_all (\<lambda>i. getDrawableByID (registry w) i \<noteq> None) (drawables (renderer w))"
  shows "(\<exists>calls w'. draw rc win w = (calls, w', None) \<and>
            paint_order None calls = drawables (renderer w) \<and>
            renderer w' = renderer w \<and>
            list_all (\<lambda>i. getDrawableByID (registry w') i \<noteq> None) (drawables (renderer w'))) \<and>
         drawables (renderer (snd (createDrawable d0 w))) =
           drawables (renderer w) @ [fst (createDrawable d0 w)] \<and>
         (\<exists>calls w'. draw rc win (snd (createDrawable db (snd (createDrawable da w)))) = (calls, w', None) \<and>
            paint_order None calls =
              drawables (renderer w) @
              [fst (createDrawable da w), fst (createDrawable db (snd (createDrawable da w)))])"
proof -
  from draw_resolved [OF assms, of rc win] draw_keeps_resolved [OF assms]
  have first: "\<exists>calls w'. draw rc win w = (calls, w', None) \<and>
            paint_order None calls = drawables (renderer w) \<and>
            renderer w' = renderer w \<and>
            list_all (\<lambda>i. getDrawableByID (registry w') i \<noteq> None) (drawables (renderer w'))"
    by blast
  have "list_all (\<lambda>i. getDrawableByID (registry (snd (createDrawable db (snd (createDrawable da w))))) i \<noteq> None)
          (drawables (renderer (snd (createDrawable db (snd (createDrawable da w))))))"
    by (intro createDrawable_resolved assms)
  from draw_resolved [OF this, of rc win]
  have third: "\<exists>calls w'. draw rc win (snd (createDrawable db (snd (createDrawable da w)))) = (calls, w', None) \<and>
            paint_order None calls =
              drawables (renderer w) @
              [fst (createDrawable da w), fst (createDrawable db (snd (createDrawable da w)))]"
    by (auto simp: createDrawable_drawables)
  from first third show ?thesis by (simp add: createDrawable_drawables)
qed

theorem paint_order_is_draw_list_order_witness:
  "list_all (\<lambda>i. getDrawableByID (registry example_scene) i \<noteq> None) (drawables (renderer example_scene)) \<and>
   (\<exists>calls w'. draw cached_uniforms example_window example_scene = (calls, w', None) \<and>
      paint_order None calls = [0, 1, 2, 3])"
proof -
  have h: "list_all (\<lambda>i. getDrawableByID (registry example_scene) i \<noteq> None) (drawables (renderer example_scene))"
    by (simp add: scene_drawables scene_registry getDrawableByID_def)
  have "\<exists>calls w'. draw cached_uniforms example_window example_scene = (calls, w', None) \<and>
          paint_order None calls = drawables (renderer example_scene)"
    using paint_order_is_draw_list_order [OF h, where rc = cached_uniforms and win = example_window
        and ?d0.0 = "\<lparr>shaderVariant = 1, uniformSet = 0, dirty = True\<rparr>"
        and da = "\<lparr>shaderVariant = 1, uniformSet = 0, dirty = True\<rparr>"
        and db = "\<lparr>shaderVariant = 1, uniformSet = 0, dirty = True\<rparr>"]
    by blast
  with h show ?thesis by (simp add: scene_drawables)
qed

text \<open>
  C3. When every id of the draw list resolves, the shader programs that \<open>draw\<close> binds
  are the shader variants of the draw list with adjacent repetitions removed: a bind for
  the first drawable, and then one exactly where the variant differs from that of the
  drawable just before. Every bind is the program followed by its vertex attributes, and
  nothing else binds either. The paint order stays the list order. For variants X, X, Y, X
  that is the three binds X, Y, X.
\<close>

theorem shader_rebound_only_on_change:
  assumes "list_all (\<lambda>i. getDrawableByID (registry w) i \<noteq> None) (drawables (renderer w))"
  shows "\<exists>calls w'. draw rc win w = (calls, w', None) \<and>
           programs_used calls = remdups_adj (shaders_of (registry w) (drawables (renderer w))) \<and>
           filter is_bind calls =
             concat (map (\<lambda>s. [UseProgram s, SetBuffersAndAttributes s (bufferInfo (renderer w))])
                       (programs_used calls)) \<and>
           paint_order None calls = drawables (renderer w) \<and>
           (X \<noteq> Y \<and> shaders_of (registry w) (drawables (renderer w)) = [X, X, Y, X] \<longrightarrow>
              programs_used calls = [X, Y, X] \<and> length (programs_used calls) = 3)"
proof -
  from draw_resolved [OF assms, of rc win]
  obtain calls w' where
    d: "draw rc win w = (calls, w', None)" and
    po: "paint_order None calls = drawables (renderer w)" and
    pu: "programs_used calls = remdups_adj (shaders_of (registry w) (drawables (renderer w)))" and
    ab: "filter is_bind calls =
           concat (map (\<lambda>s. [UseProgram s, SetBuffersAndAttributes s (bufferInfo (renderer w))])
                     (programs_used calls))"
    by blast
  have "X \<noteq> Y \<and> shaders_of (registry w) (drawables (renderer w)) = [X, X, Y, X] \<longrightarrow>
          programs_used calls = [X, Y, X] \<and> length (programs_used calls) = 3"
    using pu by auto
  with d po pu ab show ?thesis by blast
qed

theorem shader_rebound_only_on_change_witness:
  "list_all (\<lambda>i. getDrawableByID (registry example_scene) i \<noteq> None) (drawables (renderer example_scene)) \<and>
   (1::nat) \<noteq> 2 \<and>
   shaders_of (registry example_scene) (drawables (renderer example_scene)) = [1, 1, 2, 1] \<and>
   (\<exists>calls w'. draw cached_uniforms example_window example_scene = (calls, w', None) \<and>
      programs_used calls = [1, 2, 1] \<and> length (programs_used calls) = 3)"
proof -
  have h: "list_all (\<lambda>i. getDrawableByID (registry example_scene) i \<noteq> None) (drawables (renderer example_scene))"
    by (simp add: scene_drawables scene_registry getDrawableByID_def)
  have "\<exists>calls w'. draw cached_uniforms example_window example_scene = (calls, w', None) \<and>
          programs_used calls = [1, 2, 1] \<and> length (programs_used calls) = 3"
    using shader_rebound_only_on_change [OF h, of cached_uniforms example_window 1 2] scene_shaders
    by auto
  with h scene_shaders show ?thesis by simp
qed

section \<open>Destroying a drawable\<close>

text \<open>
  C4. In a renderer whose draw list has no duplicate and whose listed ids all resolve (as
  is the case after any sequence of lifecycle calls), \<open>destroyDrawable\<close> returns true
  exactly when the id is in the draw list. It then disposes the drawable, so that the id
  no longer resolves, and takes the id out of the list; otherwise it changes nothing. A
  second call with the same id returns false and changes nothing.
\<close>

theorem destroyDrawable_true_iff_listed:
  assumes "consistent w"
  shows "\<exists>w'. destroyDrawable i w = Inr (i \<in> set (drawables (renderer w)), w') \<and>
           (i \<in> set (drawables (renderer w)) \<longrightarrow>
              registry w' = dispose i (registry w) \<and>
              getDrawableByID (registry w') i = None \<and>
              drawables (renderer w') = remove1 i (drawables (renderer w)) \<and>
              i \<notin> set (drawables (renderer w'))) \<and>
           (i \<notin> set (drawables (renderer w)) \<longrightarrow> w' = w) \<and>
           destroyDrawable i w' = Inr (False, w')"
proof (cases "i \<in> set (drawables (renderer w))")
  case True
  with assms obtain d where d: "getDrawableByID (registry w) i = Some d"
    by (auto simp: consistent_def list_all_iff)
  define w' where "w' = w\<lparr>registry := dispose i (registry w),
      renderer := (renderer w)\<lparr>drawables := remove1 i (drawables (renderer w))\<rparr>\<rparr>"
  have gone: "i \<notin> set (drawables (renderer w'))"
    using assms by (simp add: w'_def consistent_def)
  have "destroyDrawable i w' = Inr (False, w')"
    using gone by (rule destroyDrawable_absent)
  moreover have "destroyDrawable i w = Inr (True, w')"
    unfolding w'_def by (rule destroyDrawable_present [OF True d])
  moreover have "registry w' = dispose i (registry w)"
    "getDrawableByID (registry w') i = None"
    "drawables (renderer w') = remove1 i (drawables (renderer w))"
    by (simp_all add: w'_def dispose_def getDrawableByID_def)
  ultimately show ?thesis using True gone by auto
next
  case False
  then show ?thesis by (simp add: destroyDrawable_absent)
qed

lemma scene_consistent: "consistent example_scene"
  by (simp add: consistent_def scene_drawables scene_registry getDrawableByID_def)

theorem destroyDrawable_true_iff_listed_witness:
  "consistent example_scene \<and>
   (\<exists>w'. destroyDrawable 0 example_scene = Inr (True, w') \<and>
      drawables (renderer w') = [1, 2, 3] \<and>
      destroyDrawable 0 w' = Inr (False, w'))"
  using destroyDrawable_true_iff_listed [OF scene_consistent, of 0] scene_consistent
  by (auto simp: scene_drawables)

section \<open>Ids that do not resolve\<close>

lemma draw_loop_general:
  "\<exists>calls reg'. draw_loop rc win r cur ids reg =
        (calls, reg', if list_all (\<lambda>i. getDrawableByID reg i \<noteq> None) ids then None else Some TypeError) \<and>
      paint_order p calls = takeWhile (\<lambda>i. getDrawableByID reg i \<noteq> None) ids"
proof (induction ids arbitrary: reg cur p)
  case Nil
  then show ?case by simp
next
  case (Cons i rest)
  show ?case
  proof (cases "getDrawableByID reg i")
    case None
    then show ?thesis by simp
  next
    case (Some d)
    define ud where "ud = getUniforms rc (projection r) d"
    define reg1 where "reg1 = reg\<lparr>allDrawables := (allDrawables reg)(i \<mapsto> snd ud)\<rparr>"
    have same: "(getDrawableByID reg1 j \<noteq> None) = (getDrawableByID reg j \<noteq> None)" for j
      using Some by (simp add: reg1_def getDrawableByID_def)
    have same_fun: "(\<lambda>j. getDrawableByID reg1 j \<noteq> None) = (\<lambda>j. getDrawableByID reg j \<noteq> None)"
      by (rule ext) (rule same)
    from Cons.IH [of "Some (shaderVariant d)" reg1 "Some i"]
    obtain calls reg2 where
      loop: "draw_loop rc win r (Some (shaderVariant d)) rest reg1 =
        (calls, reg2, if list_all (\<lambda>i. getDrawableByID reg1 i \<noteq> None) rest then None else Some TypeError)" and
      po: "paint_order (Some i) calls = takeWhile (\<lambda>i. getDrawableByID reg1 i \<noteq> None) rest"
      by blast
    have step: "draw_loop rc win r cur (i # rest) reg =
     ((if cur \<noteq> Some (shaderVariant d)
       then [UseProgram (shaderVariant d), SetBuffersAndAttributes (shaderVariant d) (bufferInfo r)]
       else []) @
      [SetUniforms (Some (shaderVariant d)) (DrawableUniforms i (fst ud)),
       SetUniforms (Some (shaderVariant d)) (U_fudge (js_or (fudge win) 0)),
       DrawBufferInfo_TRIANGLES (bufferInfo r)] @ calls, reg2,
       if list_all (\<lambda>i. getDrawableByID reg i \<noteq> None) rest then None else Some TypeError)"
      unfolding draw_loop_step [OF Some]
      by (simp add: Let_def ud_def [symmetric] reg1_def [symmetric] loop [unfolded same_fun])
    have "paint_order p ((if cur \<noteq> Some (shaderVariant d)
       then [UseProgram (shaderVariant d), SetBuffersAndAttributes (shaderVariant d) (bufferInfo r)]
       else []) @
      [SetUniforms (Some (shaderVariant d)) (DrawableUniforms i (fst ud)),
       SetUniforms (Some (shaderVariant d)) (U_fudge (js_or (fudge win) 0)),
       DrawBufferInfo_TRIANGLES (bufferInfo r)] @ calls) =
       i # takeWhile (\<lambda>i. getDrawableByID reg i \<noteq> None) rest"
      using po [unfolded same_fun] by simp
    with Some show ?thesis unfolding step by simp
  qed
qed

text \<open>
  C5, as amended. \<open>updateDrawableProperties\<close> on an id that does not resolve changes
  nothing. \<open>draw\<close> does not skip a draw-list entry that does not resolve: it throws a
  TypeError at the first such entry, having painted exactly the entries before it, and
  throws nothing when every entry resolves.
\<close>

theorem unresolved_id_update_noop_draw_throws:
  "(getDrawableByID (registry w) i = None \<longrightarrow> updateDrawableProperties upd i props w = w) \<and>
   (\<exists>calls w'. draw rc win w =
        (calls, w',
         if list_all (\<lambda>j. getDrawableByID (registry w) j \<noteq> None) (drawables (renderer w))
         then None else Some TypeError) \<and>
      paint_order None calls =
        takeWhile (\<lambda>j. getDrawableByID (registry w) j \<noteq> None) (drawables (renderer w)))"
proof -
  from draw_loop_general [of rc win "renderer w" None "drawables (renderer w)" "registry w" None]
  obtain calls reg' where
    loop: "draw_loop rc win (renderer w) None (drawables (renderer w)) (registry w) =
        (calls, reg', if list_all (\<lambda>i. getDrawableByID (registry w) i \<noteq> None) (drawables (renderer w))
                      then None else Some TypeError)" and
    po: "paint_order None calls = takeWhile (\<lambda>i. getDrawableByID (registry w) i \<noteq> None) (drawables (renderer w))"
    by blast
  have "\<exists>calls w'. draw rc win w =
        (calls, w',
         if list_all (\<lambda>j. getDrawableByID (registry w) j \<noteq> None) (drawables (renderer w))
         then None else Some TypeError) \<and>
      paint_order None calls =
        takeWhile (\<lambda>j. getDrawableByID (registry w) j \<noteq> None) (drawables (renderer w))"
    using po by (simp add: draw_def Let_def loop)
  then show ?thesis by (simp add: updateDrawableProperties_def)
qed

lemma stale_drawables: "drawables (renderer stale_scene) = [0, 1, 2, 3]"
  by (simp add: stale_scene_def scene_drawables)

lemma stale_unresolved: "getDrawableByID (registry stale_scene) 0 = None"
  by (simp add: stale_scene_def dispose_def getDrawableByID_def)

theorem unresolved_id_update_noop_draw_throws_witness:
  "getDrawableByID (registry stale_scene) 0 = None \<and>
   updateDrawableProperties (\<lambda>p d. d\<lparr>dirty := True\<rparr>) 0 () stale_scene = stale_scene \<and>
   (\<exists>calls w'. draw cached_uniforms example_window stale_scene = (calls, w', Some TypeError) \<and>
      paint_order None calls = [])"
  using unresolved_id_update_noop_draw_throws
          [of stale_scene 0 "\<lambda>p d. d\<lparr>dirty := True\<rparr>" "()" cached_uniforms example_window]
  by (simp add: stale_drawables stale_unresolved)

text \<open>
  C5 as stated fails: with drawable 0 disposed behind the renderer's back, \<open>draw\<close> throws
  at entry 0 and paints none of the entries 1, 2, 3 that do resolve.
\<close>

theorem draw_throws_on_unresolved_entry:
  "getDrawableByID (registry stale_scene) 0 = None \<and>
   getDrawableByID (registry stale_scene) 1 \<noteq> None \<and>
   drawables (renderer stale_scene) = [0, 1, 2, 3] \<and>
   snd (snd (draw cached_uniforms example_window stale_scene)) = Some TypeError \<and>
   paint_order None (fst (draw cached_uniforms example_window stale_scene)) = []"
  by (simp add: draw_def Let_def stale_drawables stale_unresolved)
     (simp add: stale_scene_def dispose_def getDrawableByID_def scene_registry)

section \<open>Stage bounds, surface size, constructor defaults\<close>

text \<open>
  C6. \<open>setStageSize\<close> (the specification's setStageBounds) stores the four bounds and
  sets the projection to the orthographic matrix of these bounds with near -1 and far 1,
  which is what \<open>getProjectionMatrix\<close> returns afterwards. It makes the one call
  \<open>Drawable.dirtyAllTransforms()\<close> on the registry: the registered ids stay the same, every
  registered drawable is dirty, and its next \<open>getUniforms\<close> is computed from the new
  projection.
\<close>

theorem setStageSize_stores_projects_and_dirties:
  "xLeft (renderer (setStageSize l r b t w)) = l \<and>
   xRight (renderer (setStageSize l r b t w)) = r \<and>
   yBottom (renderer (setStageSize l r b t w)) = b \<and>
   yTop (renderer (setStageSize l r b t w)) = t \<and>
   getProjectionMatrix (setStageSize l r b t w) = M4_ortho l r b t (- 1) 1 \<and>
   registry (setStageSize l r b t w) = dirtyAllTransforms (registry w) \<and>
   dom (allDrawables (registry (setStageSize l r b t w))) = dom (allDrawables (registry w)) \<and>
   (\<forall>i d. getDrawableByID (registry (setStageSize l r b t w)) i = Some d \<longrightarrow>
      dirty d \<and>
      fst (getUniforms rc (getProjectionMatrix (setStageSize l r b t w)) d) =
        rc (M4_ortho l r b t (- 1) 1) d)"
  by (auto simp: setStageSize_def getProjectionMatrix_def dirtyAllTransforms_def
        getDrawableByID_def getUniforms_def Let_def dom_def)

theorem setStageSize_stores_projects_and_dirties_witness:
  "getDrawableByID (registry (setStageSize (- 100) 100 (- 50) 50 example_scene)) 2 =
     Some \<lparr>shaderVariant = 2, uniformSet = 0, dirty = True\<rparr> \<and>
   getProjectionMatrix (setStageSize (- 100) 100 (- 50) 50 example_scene) =
     M4_ortho (- 100) 100 (- 50) 50 (- 1) 1 \<and>
   fst (getUniforms (\<lambda>proj d. if proj = M4_identity then 0 else 1)
         (getProjectionMatrix (setStageSize (- 100) 100 (- 50) 50 example_scene))
         \<lparr>shaderVariant = 2, uniformSet = 0, dirty = True\<rparr>) = (1::nat)"
proof -
  have h: "getDrawableByID (registry (setStageSize (- 100) 100 (- 50) 50 example_scene)) 2 =
     Some \<lparr>shaderVariant = 2, uniformSet = 0, dirty = True\<rparr>"
    by (simp add: setStageSize_def dirtyAllTransforms_def getDrawableByID_def scene_registry)
  note t = setStageSize_stores_projects_and_dirties
         [of "- 100" 100 "- 50" 50 example_scene "\<lambda>proj d. if proj = M4_identity then 0 else (1::nat)"]
  from t have p: "getProjectionMatrix (setStageSize (- 100) 100 (- 50) 50 example_scene) =
     M4_ortho (- 100) 100 (- 50) 50 (- 1) 1"
    by blast
  from t h have "fst (getUniforms (\<lambda>proj d. if proj = M4_identity then 0 else 1)
         (getProjectionMatrix (setStageSize (- 100) 100 (- 50) 50 example_scene))
         \<lparr>shaderVariant = 2, uniformSet = 0, dirty = True\<rparr>) =
       (if M4_ortho (- 100) 100 (- 50) 50 (- 1) 1 = M4_identity then 0 else (1::nat))"
    by blast
  then have "fst (getUniforms (\<lambda>proj d. if proj = M4_identity then 0 else 1)
         (getProjectionMatrix (setStageSize (- 100) 100 (- 50) 50 example_scene))
         \<lparr>shaderVariant = 2, uniformSet = 0, dirty = True\<rparr>) = (1::nat)"
    by simp
  with h p show ?thesis by blast
qed

text \<open>
  C7, as amended. For every input, zero-width and zero-height bounds included,
  \<open>setStageSize\<close> returns normally and stores the bounds exactly as given: the stored
  width and height are those of the input, nothing is clamped, and the projection is the
  orthographic matrix of the bounds as given.
\<close>

theorem setStageSize_keeps_bounds_as_given:
  "xRight (renderer (setStageSize l r b t w)) - xLeft (renderer (setStageSize l r b t w)) = r - l \<and>
   yTop (renderer (setStageSize l r b t w)) - yBottom (renderer (setStageSize l r b t w)) = t - b \<and>
   xLeft (renderer (setStageSize l r b t w)) = l \<and>
   yBottom (renderer (setStageSize l r b t w)) = b \<and>
   projection (renderer (setStageSize l r b t w)) = M4_ortho l r b t (- 1) 1"
  by (simp add: setStageSize_def)

text \<open>
  C7 as stated fails: bounds of zero width and zero height are stored with extent 0, not
  with a positive minimum extent, and the projection is taken of these bounds.
\<close>

theorem zero_extent_bounds_are_not_clamped:
  "xRight (renderer (setStageSize 5 5 7 7 example_scene)) -
     xLeft (renderer (setStageSize 5 5 7 7 example_scene)) = 0 \<and>
   yTop (renderer (setStageSize 5 5 7 7 example_scene)) -
     yBottom (renderer (setStageSize 5 5 7 7 example_scene)) = 0 \<and>
   getProjectionMatrix (setStageSize 5 5 7 7 example_scene) = M4_ortho 5 5 7 7 (- 1) 1"
  by (simp add: setStageSize_def getProjectionMatrix_def)

lemma resize_width:
  "width (gl_canvas (renderer (resize win pixelsWide pixelsTall w))) =
     unsigned_long_attribute 300 (js_times pixelsWide (Num (js_or (devicePixelRatio win) 1)))"
  by (simp add: resize_def Let_def)

lemma resize_height:
  "height (gl_canvas (renderer (resize win pixelsWide pixelsTall w))) =
     unsigned_long_attribute 150 (js_times pixelsTall (Num (js_or (devicePixelRatio win) 1)))"
  by (simp add: resize_def Let_def)

lemma resize_dyadic_width:
  assumes "pw * js_or (devicePixelRatio win) 1 = real n / 2 ^ j" "n < 2 ^ 53" "j \<le> 1074"
    "n div 2 ^ j \<le> 2147483647"
  shows "width (gl_canvas (renderer (resize win (Num pw) pixelsTall w))) = n div 2 ^ j"
  unfolding resize_width js_times_dyadic [OF assms(1,2,3)]
  by (rule unsigned_long_attribute_dyadic [OF assms(4)])

lemma resize_dyadic_height:
  assumes "pt * js_or (devicePixelRatio win) 1 = real n / 2 ^ j" "n < 2 ^ 53" "j \<le> 1074"
    "n div 2 ^ j \<le> 2147483647"
  shows "height (gl_canvas (renderer (resize win pixelsWide (Num pt) w))) = n div 2 ^ j"
  unfolding resize_height js_times_dyadic [OF assms(1,2,3)]
  by (rule unsigned_long_attribute_dyadic [OF assms(4)])

text \<open>
  C8, as amended. \<open>resize\<close> multiplies each requested dimension, as a double, by the
  pixel ratio, which is the device pixel density that the host reports, or 1 when the
  host reports none or reports 0, and assigns the product to the canvas, whose width and
  height are unsigned long attributes. Whenever the product needs no rounding (a natural number below \<open>2 ^ 53\<close>
  over a power of two) and its integer part is at most 2147483647, the backing-store
  dimension is that integer part, so the product itself when it is a whole number.
  \<open>resize(480, 360)\<close> under density 2 gives 960 by 720.
\<close>

theorem resize_scales_by_pixel_ratio:
  "width (gl_canvas (renderer (resize win pixelsWide pixelsTall w))) =
     unsigned_long_attribute 300 (js_times pixelsWide (Num (js_or (devicePixelRatio win) 1))) \<and>
   height (gl_canvas (renderer (resize win pixelsWide pixelsTall w))) =
     unsigned_long_attribute 150 (js_times pixelsTall (Num (js_or (devicePixelRatio win) 1))) \<and>
   (pixelsWide = Num pw \<and> pw * js_or (devicePixelRatio win) 1 = real n / 2 ^ j \<and>
    n < 2 ^ 53 \<and> j \<le> 1074 \<and> n div 2 ^ j \<le> 2147483647 \<longrightarrow>
      width (gl_canvas (renderer (resize win pixelsWide pixelsTall w))) = n div 2 ^ j) \<and>
   (pixelsTall = Num pt \<and> pt * js_or (devicePixelRatio win) 1 = real m / 2 ^ i \<and>
    m < 2 ^ 53 \<and> i \<le> 1074 \<and> m div 2 ^ i \<le> 2147483647 \<longrightarrow>
      height (gl_canvas (renderer (resize win pixelsWide pixelsTall w))) = m div 2 ^ i) \<and>
   (devicePixelRatio win = Some ratio \<and> ratio \<noteq> 0 \<longrightarrow>
      js_or (devicePixelRatio win) 1 = ratio) \<and>
   (falsy (devicePixelRatio win) \<longrightarrow> js_or (devicePixelRatio win) 1 = 1) \<and>
   (devicePixelRatio win = Some 2 \<longrightarrow>
      width (gl_canvas (renderer (resize win (Num 480) (Num 360) w))) = 960 \<and>
      height (gl_canvas (renderer (resize win (Num 480) (Num 360) w))) = 720)"
proof -
  have "width (gl_canvas (renderer (resize win (Num 480) (Num 360) w))) = 960"
    if "devicePixelRatio win = Some 2"
    using resize_dyadic_width [of 480 win 960 0 "Num 360" w] that by (simp add: js_or_def)
  moreover have "height (gl_canvas (renderer (resize win (Num 480) (Num 360) w))) = 720"
    if "devicePixelRatio win = Some 2"
    using resize_dyadic_height [of 360 win 720 0 "Num 480" w] that by (simp add: js_or_def)
  moreover have "js_or (devicePixelRatio win) 1 = 1" if "falsy (devicePixelRatio win)"
    using that by (auto simp: js_or_def falsy_def split: option.splits)
  moreover have "js_or (devicePixelRatio win) 1 = ratio"
    if "devicePixelRatio win = Some ratio" "ratio \<noteq> 0"
    using that by (simp add: js_or_def)
  ultimately show ?thesis
    using resize_dyadic_width [of pw win n j pixelsTall w]
      resize_dyadic_height [of pt win m i pixelsWide w]
      resize_width [of win pixelsWide pixelsTall w] resize_height [of win pixelsWide pixelsTall w]
    by blast
qed

theorem resize_scales_by_pixel_ratio_witness:
  "devicePixelRatio example_window = Some 2 \<and> (2::real) \<noteq> 0 \<and>
   480 * js_or (devicePixelRatio example_window) 1 = real 960 / 2 ^ 0 \<and>
   360 * js_or (devicePixelRatio example_window) 1 = real 720 / 2 ^ 0 \<and>
   (960::nat) < 2 ^ 53 \<and> (720::nat) < 2 ^ 53 \<and> (0::nat) \<le> 1074 \<and>
   (960::nat) div 2 ^ 0 \<le> 2147483647 \<and> (720::nat) div 2 ^ 0 \<le> 2147483647 \<and>
   width (gl_canvas (renderer (resize example_window (Num 480) (Num 360) example_scene))) = 960 \<and>
   height (gl_canvas (renderer (resize example_window (Num 480) (Num 360) example_scene))) = 720"
proof -
  have d: "devicePixelRatio example_window = Some 2"
    by (simp add: example_window_def)
  from resize_scales_by_pixel_ratio
         [where win = example_window and pixelsWide = "Num 480" and pixelsTall = "Num 360"
            and w = example_scene and pw = 480 and pt = 360 and n = 960 and m = 720
            and j = 0 and i = 0 and ratio = 2]
  have "devicePixelRatio example_window = Some 2 \<longrightarrow>
      width (gl_canvas (renderer (resize example_window (Num 480) (Num 360) example_scene))) = 960 \<and>
      height (gl_canvas (renderer (resize example_window (Num 480) (Num 360) example_scene))) = 720"
    by blast
  with d show ?thesis by (simp add: js_or_def)
qed

text \<open>
  C8 as stated fails. A host that reports density 0 gets 480 by 360 for \<open>resize(480,
  360)\<close>, not the products 0 by 0; and under density 1.5 the requested width 481 gives a
  backing store 721 wide where the product is 721.5.
\<close>

theorem resize_zero_density_and_fraction:
  "width (gl_canvas (renderer
     (resize \<lparr>devicePixelRatio = Some 0, fudge = None\<rparr> (Num 480) (Num 360) example_scene))) = 480 \<and>
   height (gl_canvas (renderer
     (resize \<lparr>devicePixelRatio = Some 0, fudge = None\<rparr> (Num 480) (Num 360) example_scene))) = 360 \<and>
   js_times (Num 480) (Num 0) = Num 0 \<and>
   js_times (Num 360) (Num 0) = Num 0 \<and>
   width (gl_canvas (renderer
     (resize \<lparr>devicePixelRatio = Some (3 / 2), fudge = None\<rparr> (Num 481) (Num 360) example_scene))) = 721 \<and>
   js_times (Num 481) (Num (3 / 2)) = Num (1443 / 2)"
proof -
  have "width (gl_canvas (renderer
     (resize \<lparr>devicePixelRatio = Some 0, fudge = None\<rparr> (Num 480) (Num 360) example_scene))) = 480"
    using resize_dyadic_width [of 480 "\<lparr>devicePixelRatio = Some 0, fudge = None\<rparr>" 480 0 "Num 360" example_scene]
    by (simp add: js_or_def)
  moreover have "height (gl_canvas (renderer
     (resize \<lparr>devicePixelRatio = Some 0, fudge = None\<rparr> (Num 480) (Num 360) example_scene))) = 360"
    using resize_dyadic_height [of 360 "\<lparr>devicePixelRatio = Some 0, fudge = None\<rparr>" 360 0 "Num 480" example_scene]
    by (simp add: js_or_def)
  moreover have "js_times (Num 480) (Num 0) = Num 0" "js_times (Num 360) (Num 0) = Num 0"
    by (simp_all add: fl64_def)
  moreover have "width (gl_canvas (renderer
     (resize \<lparr>devicePixelRatio = Some (3 / 2), fudge = None\<rparr> (Num 481) (Num 360) example_scene))) = 721"
    using resize_dyadic_width [of 481 "\<lparr>devicePixelRatio = Some (3 / 2), fudge = None\<rparr>" 1443 1 "Num 360" example_scene]
    by (simp add: js_or_def)
  moreover have "js_times (Num 481) (Num (3 / 2)) = Num (1443 / 2)"
    using js_times_dyadic [of 481 "3 / 2" 1443 1] by simp
  ultimately show ?thesis by blast
qed

lemma RenderWebGL_renderer:
  "renderer (RenderWebGL win reg cv xl xr yb yt pw pt) =
     \<lparr>gl_canvas = cv
        \<lparr>width := unsigned_long_attribute 300
           (js_times (js_or_num pw (Math_abs (js_minus (js_or xr 240) (js_or xl (- 240)))))
              (Num (js_or (devicePixelRatio win) 1))),
         height := unsigned_long_attribute 150
           (js_times (js_or_num pt (Math_abs (js_minus (js_or yt 180) (js_or yb (- 180)))))
              (Num (js_or (devicePixelRatio win) 1)))\<rparr>,
      drawables = [],
      projection = M4_ortho (js_or xl (- 240)) (js_or xr 240) (js_or yb (- 180)) (js_or yt 180) (- 1) 1,
      bufferInfo = quad, backgroundColor = (1, 1, 1, 1),
      xLeft = js_or xl (- 240), xRight = js_or xr 240,
      yBottom = js_or yb (- 180), yTop = js_or yt 180\<rparr>"
  by (simp add: RenderWebGL_def createGeometry_def setBackgroundColor_def setStageSize_def
        resize_def Let_def)

lemma js_or_nonzero: "d \<noteq> 0 \<Longrightarrow> js_or x d \<noteq> 0"
  by (simp add: js_or_def split: option.splits)

lemma js_or_falsy: "falsy x \<Longrightarrow> js_or x d = d"
  by (auto simp: js_or_def falsy_def split: option.splits)

lemma js_or_num_falsy: "falsy x \<Longrightarrow> js_or_num x d = d"
  by (auto simp: js_or_num_def falsy_def split: option.splits)

lemma zero_default_dimension:
  "unsigned_long_attribute fallback (js_times (Math_abs (js_minus x x)) (Num r)) = 0"
  by (simp add: js_minus_def fl64_def unsigned_long_attribute_def ToUint32_def)

text \<open>
  C10, as amended. In the constructor a falsy stage-bound argument, an explicit 0
  included, is replaced by its default (-240, 240, -180, 180), so no stage bound of a
  constructed renderer is 0. A falsy pixel dimension, an explicit 0 included, is replaced
  by the absolute difference of the two bounds of its axis, from which the surface is
  sized. That default is 0 when the two bounds are equal, and the surface then has
  dimension 0: a pixel dimension of 0 can be constructed.
\<close>

theorem constructor_defaults_falsy_arguments:
  "xLeft (renderer (RenderWebGL win reg cv xl xr yb yt pw pt)) \<noteq> 0 \<and>
   xRight (renderer (RenderWebGL win reg cv xl xr yb yt pw pt)) \<noteq> 0 \<and>
   yBottom (renderer (RenderWebGL win reg cv xl xr yb yt pw pt)) \<noteq> 0 \<and>
   yTop (renderer (RenderWebGL win reg cv xl xr yb yt pw pt)) \<noteq> 0 \<and>
   (falsy xl \<longrightarrow> xLeft (renderer (RenderWebGL win reg cv xl xr yb yt pw pt)) = - 240) \<and>
   (falsy xr \<longrightarrow> xRight (renderer (RenderWebGL win reg cv xl xr yb yt pw pt)) = 240) \<and>
   (falsy yb \<longrightarrow> yBottom (renderer (RenderWebGL win reg cv xl xr yb yt pw pt)) = - 180) \<and>
   (falsy yt \<longrightarrow> yTop (renderer (RenderWebGL win reg cv xl xr yb yt pw pt)) = 180) \<and>
   (falsy pw \<longrightarrow>
      width (gl_canvas (renderer (RenderWebGL win reg cv xl xr yb yt pw pt))) =
        unsigned_long_attribute 300
          (js_times
            (Math_abs (js_minus (xRight (renderer (RenderWebGL win reg cv xl xr yb yt pw pt)))
                                (xLeft (renderer (RenderWebGL win reg cv xl xr yb yt pw pt)))))
            (Num (js_or (devicePixelRatio win) 1)))) \<and>
   (falsy pt \<longrightarrow>
      height (gl_canvas (renderer (RenderWebGL win reg cv xl xr yb yt pw pt))) =
        unsigned_long_attribute 150
          (js_times
            (Math_abs (js_minus (yTop (renderer (RenderWebGL win reg cv xl xr yb yt pw pt)))
                                (yBottom (renderer (RenderWebGL win reg cv xl xr yb yt pw pt)))))
            (Num (js_or (devicePixelRatio win) 1)))) \<and>
   (falsy pw \<and>
    xRight (renderer (RenderWebGL win reg cv xl xr yb yt pw pt)) =
    xLeft (renderer (RenderWebGL win reg cv xl xr yb yt pw pt)) \<longrightarrow>
      width (gl_canvas (renderer (RenderWebGL win reg cv xl xr yb yt pw pt))) = 0) \<and>
   (falsy pt \<and>
    yTop (renderer (RenderWebGL win reg cv xl xr yb yt pw pt)) =
    yBottom (renderer (RenderWebGL win reg cv xl xr yb yt pw pt)) \<longrightarrow>
      height (gl_canvas (renderer (RenderWebGL win reg cv xl xr yb yt pw pt))) = 0)"
  by (simp add: RenderWebGL_renderer js_or_nonzero js_or_falsy js_or_num_falsy
        zero_default_dimension)

theorem constructor_defaults_falsy_arguments_witness:
  "falsy (Some 0) \<and> falsy None \<and>
   xLeft (renderer (RenderWebGL example_window (Drawable_module :: nat registry) example_canvas
            (Some 0) None None None None (Some 0))) = - 240 \<and>
   width (gl_canvas (renderer (RenderWebGL example_window (Drawable_module :: nat registry) example_canvas
            (Some 0) None None None None (Some 0)))) = 960 \<and>
   height (gl_canvas (renderer (RenderWebGL example_window (Drawable_module :: nat registry) example_canvas
            (Some 0) None None None None (Some 0)))) = 720"
proof -
  have f: "falsy (Some 0)" "falsy None" by (simp_all add: falsy_def)
  have r: "fl64 480 = Num 480" "fl64 360 = Num 360" "fl64 960 = Num 960" "fl64 720 = Num 720"
    using fl64_of_nat [of 480] fl64_of_nat [of 360] fl64_of_nat [of 960] fl64_of_nat [of 720]
    by simp_all
  have u: "unsigned_long_attribute 300 (Num 960) = 960" "unsigned_long_attribute 150 (Num 720) = 720"
    using unsigned_long_attribute_dyadic [of 960 0 300] unsigned_long_attribute_dyadic [of 720 0 150]
    by simp_all
  from constructor_defaults_falsy_arguments
         [of example_window "Drawable_module :: nat registry" example_canvas
             "Some 0" None None None None "Some 0"] f
  have "xLeft (renderer (RenderWebGL example_window (Drawable_module :: nat registry) example_canvas
            (Some 0) None None None None (Some 0))) = - 240"
    and "xRight (renderer (RenderWebGL example_window (Drawable_module :: nat registry) example_canvas
            (Some 0) None None None None (Some 0))) = 240"
    and "yBottom (renderer (RenderWebGL example_window (Drawable_module :: nat registry) example_canvas
            (Some 0) None None None None (Some 0))) = - 180"
    and "yTop (renderer (RenderWebGL example_window (Drawable_module :: nat registry) example_canvas
            (Some 0) None None None None (Some 0))) = 180"
    and "width (gl_canvas (renderer (RenderWebGL example_window (Drawable_module :: nat registry) example_canvas
            (Some 0) None None None None (Some 0)))) =
        unsigned_long_attribute 300
          (js_times
            (Math_abs (js_minus (xRight (renderer (RenderWebGL example_window (Drawable_module :: nat registry) example_canvas
            (Some 0) None None None None (Some 0))))
                                (xLeft (renderer (RenderWebGL example_window (Drawable_module :: nat registry) example_canvas
            (Some 0) None None None None (Some 0))))))
            (Num (js_or (devicePixelRatio example_window) 1)))"
    and "height (gl_canvas (renderer (RenderWebGL example_window (Drawable_module :: nat registry) example_canvas
            (Some 0) None None None None (Some 0)))) =
        unsigned_long_attribute 150
          (js_times
            (Math_abs (js_minus (yTop (renderer (RenderWebGL example_window (Drawable_module :: nat registry) example_canvas
            (Some 0) None None None None (Some 0))))
                                (yBottom (renderer (RenderWebGL example_window (Drawable_module :: nat registry) example_canvas
            (Some 0) None None None None (Some 0))))))
            (Num (js_or (devicePixelRatio example_window) 1)))"
    by blast+
  then show ?thesis
    using f by (simp add: js_minus_def r u example_window_def js_or_def)
qed

text \<open>
  C10 as stated fails: with both horizontal bounds 5 and no pixel width given, the
  default pixel width is 0 and the renderer is built on a surface of width 0.
\<close>

theorem equal_bounds_give_zero_pixel_width:
  "xLeft (renderer (RenderWebGL example_window (Drawable_module :: nat registry) example_canvas
            (Some 5) (Some 5) None None None None)) = 5 \<and>
   xRight (renderer (RenderWebGL example_window (Drawable_module :: nat registry) example_canvas
            (Some 5) (Some 5) None None None None)) = 5 \<and>
   js_or_num None (Math_abs (js_minus 5 5)) = Num 0 \<and>
   width (gl_canvas (renderer (RenderWebGL example_window (Drawable_module :: nat registry) example_canvas
            (Some 5) (Some 5) None None None None))) = 0"
  by (simp add: RenderWebGL_renderer js_or_def js_or_num_def zero_default_dimension)
     (simp add: js_minus_def fl64_def)

section \<open>Blending\<close>

lemma draw_loop_inert:
  "list_all (\<lambda>c. \<not> changes_blend c) (fst (draw_loop rc win r cur ids reg))"
proof (induction ids arbitrary: reg cur)
  case Nil
  then show ?case by simp
next
  case (Cons i rest)
  show ?case
  proof (cases "getDrawableByID reg i")
    case None
    then show ?thesis by simp
  next
    case (Some d)
    show ?thesis
      unfolding draw_loop_step [OF Some] using Cons.IH by (simp add: Let_def)
  qed
qed

lemma inert_blend_at_draws:
  "list_all (\<lambda>c. \<not> changes_blend c) cs \<Longrightarrow> list_all (\<lambda>s. s = st) (blend_at_draws st cs)"
proof (induction cs)
  case Nil
  then show ?case by simp
next
  case (Cons c cs)
  then show ?case by (cases c) simp_all
qed

lemma inert_no_BlendFunc:
  "list_all (\<lambda>c. \<not> changes_blend c) cs \<Longrightarrow> \<not> list_ex is_BlendFunc cs"
proof (induction cs)
  case Nil
  then show ?case by simp
next
  case (Cons c cs)
  then show ?case by (cases c) simp_all
qed

lemma blend_state_set:
  "(st :: blend_state)\<lparr>blending := e, factors := f\<rparr> = \<lparr>blending = e, factors = f\<rparr>"
  by (cases st) simp

lemma draw_calls:
  "fst (draw rc win w) =
     [Viewport 0 0 (clientWidth (gl_canvas (renderer w))) (clientHeight (gl_canvas (renderer w))),
      ClearColor (backgroundColor (renderer w)),
      Clear_COLOR_BUFFER_BIT,
      Enable BLEND,
      BlendFuncSeparate ONE ONE_MINUS_SRC_ALPHA ZERO ONE] @
     fst (draw_loop rc win (renderer w) None (drawables (renderer w)) (registry w))"
  by (simp add: draw_def Let_def split: prod.splits)

lemma inert_blend_after:
  "list_all (\<lambda>c. \<not> changes_blend c) cs \<Longrightarrow> blend_after st cs = st"
proof (induction cs arbitrary: st)
  case Nil
  then show ?case by (simp add: blend_after_def)
next
  case (Cons c cs)
  then have "blend_exec st c = st" by (cases c) simp_all
  with Cons show ?case by (simp add: blend_after_def)
qed

lemma blend_after_append: "blend_after st (xs @ ys) = blend_after (blend_after st xs) ys"
  by (simp add: blend_after_def)

text \<open>
  C9, as amended. Every invocation of \<open>draw\<close>, whatever the draw list and from any
  blend state of the context, starts with viewport, clearColor, clear, \<open>enable(BLEND)\<close>
  and \<open>blendFuncSeparate(ONE, ONE_MINUS_SRC_ALPHA, ZERO, ONE)\<close>, and no call after these
  touches the blend state. So blending is on with these separate factors when the frame
  ends, also in a frame without any draw call, and at each of its draw calls; the
  non-separate \<open>blendFunc\<close> is never called. With these factors the source colour is
  added as it is (premultiplied by its alpha) to the destination colour scaled by one
  minus the source alpha, and the alpha of the destination is kept.
\<close>

theorem draw_blends_premultiplied_over:
  "(\<exists>rest. fst (draw rc win w) =
       [Viewport 0 0 (clientWidth (gl_canvas (renderer w))) (clientHeight (gl_canvas (renderer w))),
        ClearColor (backgroundColor (renderer w)),
        Clear_COLOR_BUFFER_BIT,
        Enable BLEND,
        BlendFuncSeparate ONE ONE_MINUS_SRC_ALPHA ZERO ONE] @ rest \<and>
       list_all (\<lambda>c. \<not> changes_blend c) rest) \<and>
   blend_after st (fst (draw rc win w)) =
     \<lparr>blending = True, factors = (ONE, ONE_MINUS_SRC_ALPHA, ZERO, ONE)\<rparr> \<and>
   list_all (\<lambda>s. s = \<lparr>blending = True, factors = (ONE, ONE_MINUS_SRC_ALPHA, ZERO, ONE)\<rparr>)
     (blend_at_draws st (fst (draw rc win w))) \<and>
   \<not> list_ex is_BlendFunc (fst (draw rc win w)) \<and>
   blend (ONE, ONE_MINUS_SRC_ALPHA, ZERO, ONE) (r, g, b, a) (r', g', b', a') =
     (r + r' * (1 - a), g + g' * (1 - a), b + b' * (1 - a), a')"
proof -
  have inert: "list_all (\<lambda>c. \<not> changes_blend c)
      (fst (draw_loop rc win (renderer w) None (drawables (renderer w)) (registry w)))"
    by (rule draw_loop_inert)
  have "\<exists>rest. fst (draw rc win w) =
       [Viewport 0 0 (clientWidth (gl_canvas (renderer w))) (clientHeight (gl_canvas (renderer w))),
        ClearColor (backgroundColor (renderer w)),
        Clear_COLOR_BUFFER_BIT,
        Enable BLEND,
        BlendFuncSeparate ONE ONE_MINUS_SRC_ALPHA ZERO ONE] @ rest \<and>
       list_all (\<lambda>c. \<not> changes_blend c) rest"
    using inert draw_calls [of rc win w] by blast
  moreover have "blend_after st (fst (draw rc win w)) =
     \<lparr>blending = True, factors = (ONE, ONE_MINUS_SRC_ALPHA, ZERO, ONE)\<rparr>"
    unfolding draw_calls blend_after_append inert_blend_after [OF inert]
    by (simp add: blend_after_def blend_state_set)
  moreover have "list_all (\<lambda>s. s = \<lparr>blending = True, factors = (ONE, ONE_MINUS_SRC_ALPHA, ZERO, ONE)\<rparr>)
     (blend_at_draws st (fst (draw rc win w)))"
    using inert_blend_at_draws [OF inert, of "\<lparr>blending = True, factors = (ONE, ONE_MINUS_SRC_ALPHA, ZERO, ONE)\<rparr>"]
    by (simp add: draw_calls blend_state_set)
  moreover have "\<not> list_ex is_BlendFunc (fst (draw rc win w))"
    using inert_no_BlendFunc [OF inert] by (simp add: draw_calls)
  ultimately show ?thesis by simp
qed

lemma scene_loop_calls:
  "fst (draw_loop cached_uniforms example_window (renderer example_scene) None [0, 1, 2, 3] (registry example_scene)) =
     [UseProgram 1, SetBuffersAndAttributes 1 (bufferInfo (renderer example_scene)),
      SetUniforms (Some 1) (DrawableUniforms 0 0), SetUniforms (Some 1) (U_fudge 0),
      DrawBufferInfo_TRIANGLES (bufferInfo (renderer example_scene)),
      SetUniforms (Some 1) (DrawableUniforms 1 0), SetUniforms (Some 1) (U_fudge 0),
      DrawBufferInfo_TRIANGLES (bufferInfo (renderer example_scene)),
      UseProgram 2, SetBuffersAndAttributes 2 (bufferInfo (renderer example_scene)),
      SetUniforms (Some 2) (DrawableUniforms 2 0), SetUniforms (Some 2) (U_fudge 0),
      DrawBufferInfo_TRIANGLES (bufferInfo (renderer example_scene)),
      UseProgram 1, SetBuffersAndAttributes 1 (bufferInfo (renderer example_scene)),
      SetUniforms (Some 1) (DrawableUniforms 3 0), SetUniforms (Some 1) (U_fudge 0),
      DrawBufferInfo_TRIANGLES (bufferInfo (renderer example_scene))]"
  by (simp add: scene_registry getDrawableByID_def getUniforms_def
        getShader_def cached_uniforms_def Let_def example_window_def js_or_def)

lemma scene_blend_at_draws:
  "blend_at_draws st
     (fst (draw_loop cached_uniforms example_window (renderer example_scene) None [0, 1, 2, 3]
             (registry example_scene))) = [st, st, st, st]"
  unfolding scene_loop_calls by simp

lemma scene_blend_after:
  "blend_after st
     (fst (draw_loop cached_uniforms example_window (renderer example_scene) None [0, 1, 2, 3]
             (registry example_scene))) = st"
  unfolding scene_loop_calls by (simp add: blend_after_def)

lemma blend_at_draws_setup:
  "blend_at_draws st ([Viewport x y wd ht, ClearColor c, Clear_COLOR_BUFFER_BIT, Enable BLEND,
      BlendFuncSeparate sRGB dRGB sA dA] @ cs) =
   blend_at_draws \<lparr>blending = True, factors = (sRGB, dRGB, sA, dA)\<rparr> cs"
  by (simp add: blend_state_set)

lemma empty_scene_drawables: "drawables (renderer (scene_with [])) = []"
  by (simp add: scene_with_def RenderWebGL_drawables)

theorem draw_blends_premultiplied_over_witness:
  "blend_at_draws fresh_context (fst (draw cached_uniforms example_window example_scene)) =
     replicate 4 \<lparr>blending = True, factors = (ONE, ONE_MINUS_SRC_ALPHA, ZERO, ONE)\<rparr> \<and>
   blend_at_draws fresh_context (fst (draw cached_uniforms example_window (scene_with []))) = [] \<and>
   blend_after fresh_context (fst (draw cached_uniforms example_window (scene_with []))) =
     \<lparr>blending = True, factors = (ONE, ONE_MINUS_SRC_ALPHA, ZERO, ONE)\<rparr>"
proof -
  have all: "list_all (\<lambda>s. s = \<lparr>blending = True, factors = (ONE, ONE_MINUS_SRC_ALPHA, ZERO, ONE)\<rparr>)
     (blend_at_draws fresh_context (fst (draw cached_uniforms example_window example_scene)))"
    using draw_blends_premultiplied_over [of cached_uniforms example_window example_scene fresh_context]
    by blast
  have len: "length (blend_at_draws fresh_context (fst (draw cached_uniforms example_window example_scene))) = 4"
    unfolding draw_calls scene_drawables blend_at_draws_setup scene_blend_at_draws by simp
  have four: "blend_at_draws fresh_context (fst (draw cached_uniforms example_window example_scene)) =
     replicate 4 \<lparr>blending = True, factors = (ONE, ONE_MINUS_SRC_ALPHA, ZERO, ONE)\<rparr>"
  proof (rule replicate_eqI [OF len])
    fix y
    assume "y \<in> set (blend_at_draws fresh_context (fst (draw cached_uniforms example_window example_scene)))"
    with all show "y = \<lparr>blending = True, factors = (ONE, ONE_MINUS_SRC_ALPHA, ZERO, ONE)\<rparr>"
      by (simp add: list_all_iff)
  qed
  have none: "blend_at_draws fresh_context (fst (draw cached_uniforms example_window (scene_with []))) = []"
    unfolding draw_calls empty_scene_drawables blend_at_draws_setup by simp
  have after: "blend_after fresh_context (fst (draw cached_uniforms example_window (scene_with []))) =
     \<lparr>blending = True, factors = (ONE, ONE_MINUS_SRC_ALPHA, ZERO, ONE)\<rparr>"
    using draw_blends_premultiplied_over [of cached_uniforms example_window "scene_with []" fresh_context]
    by blast
  from four none after show ?thesis by blast
qed

text \<open>
  C9 as stated fails: for a half-transparent white source over an empty destination the
  factors of \<open>draw\<close> give colour 1 and alpha 0, where straight alpha over the destination
  with additive alpha gives colour 1/2 and alpha 1/2.
\<close>

theorem draw_blend_is_not_straight_alpha_additive:
  "factors (blend_after fresh_context (fst (draw cached_uniforms example_window example_scene))) =
     (ONE, ONE_MINUS_SRC_ALPHA, ZERO, ONE) \<and>
   blend (factors (blend_after fresh_context (fst (draw cached_uniforms example_window example_scene))))
     (1, 1, 1, 1 / 2) (0, 0, 0, 0) = (1, 1, 1, 0) \<and>
   spec_straight_alpha_additive (1, 1, 1, 1 / 2) (0, 0, 0, 0) = (1 / 2, 1 / 2, 1 / 2, 1 / 2)"
proof -
  have f: "factors (blend_after fresh_context (fst (draw cached_uniforms example_window example_scene))) =
     (ONE, ONE_MINUS_SRC_ALPHA, ZERO, ONE)"
    unfolding draw_calls scene_drawables blend_after_append scene_blend_after
    by (simp add: blend_after_def fresh_context_def)
  show ?thesis unfolding f by simp
qed

end
